theory Spec2Isabelle
  imports Main "HOL-Library.Word"
begin

unbundle bit_operations_syntax

section \<open>The shared-memory registry of super.c\<close>

text \<open>
  \<^verbatim>\<open>static struct { void *ptr; u32 len; int cnt; } s_shared[8];\<close>

  A pointer is an address, \<open>NULL\<close> is address 0. The bytes that \<open>memcmp\<close> reads are
  taken from a memory that maps the address of a buffer to the bytes stored there.
  The counter is a C \<open>int\<close>: a 32-bit word whose \<open>+ 1\<close> and \<open>- 1\<close> wrap.
\<close>

type_synonym addr = nat
type_synonym memory = "addr \<Rightarrow> 8 word list"

definition NULL :: addr where
  "NULL = 0"

record shared_slot =
  ptr :: addr
  len :: "32 word"
  cnt :: "32 word"

text \<open>The array has static storage: every field of every slot starts as zero.\<close>

definition s_shared_init :: "shared_slot list" where
  "s_shared_init = replicate 8 \<lparr>ptr = NULL, len = 0, cnt = 0\<rparr>"

text \<open>\<open>!memcmp(a, b, n)\<close>: the first \<open>n\<close> bytes at both addresses are the same.\<close>

definition memcmp_eq :: "memory \<Rightarrow> addr \<Rightarrow> addr \<Rightarrow> nat \<Rightarrow> bool" where
  "memcmp_eq mem a b n = (take n (mem a) = take n (mem b))"

text \<open>
  The loop of \<open>ntfs_set_shared\<close>, from index \<open>i\<close> on; \<open>ARRAY_SIZE(s_shared)\<close> is the
  length of the array. The result is the array, \<open>ret\<close> and \<open>j\<close> as the loop leaves them.
\<close>

function set_scan ::
  "memory \<Rightarrow> addr \<Rightarrow> 32 word \<Rightarrow> shared_slot list \<Rightarrow> nat \<Rightarrow> int \<Rightarrow> shared_slot list \<times> addr \<times> int"
where
  "set_scan mem p bytes s i j =
     (if i < length s then
        (if cnt (s ! i) = 0 then set_scan mem p bytes s (i + 1) (int i)
         else if bytes = len (s ! i) \<and> memcmp_eq mem (ptr (s ! i)) p (unat bytes) then
           (s[i := (s ! i)\<lparr>cnt := cnt (s ! i) + 1\<rparr>], ptr (s ! i), j)
         else set_scan mem p bytes s (i + 1) j)
      else (s, NULL, j))"
  by pat_completeness auto
termination
  by (relation "measure (\<lambda>(mem, p, bytes, s, i, j). length s - i)") auto

declare set_scan.simps [simp del]

definition ntfs_set_shared ::
  "memory \<Rightarrow> shared_slot list \<Rightarrow> addr \<Rightarrow> 32 word \<Rightarrow> addr \<times> shared_slot list"
where
  "ntfs_set_shared mem s p bytes =
     (case set_scan mem p bytes s 0 (- 1) of
        (s', ret, j) \<Rightarrow>
          if ret = NULL \<and> j \<noteq> - 1
          then (p, s'[nat j := \<lparr>ptr = p, len = bytes, cnt = 1\<rparr>])
          else (ret, s'))"

text \<open>The loop of \<open>ntfs_put_shared\<close>, from index \<open>i\<close> on, with \<open>ret\<close> initialised to \<open>p\<close>.\<close>

function put_scan :: "shared_slot list \<Rightarrow> addr \<Rightarrow> nat \<Rightarrow> addr \<times> shared_slot list" where
  "put_scan s p i =
     (if i < length s then
        (if cnt (s ! i) \<noteq> 0 \<and> ptr (s ! i) = p then
           (let c = cnt (s ! i) - 1
            in (if c \<noteq> 0 then NULL else p, s[i := (s ! i)\<lparr>cnt := c\<rparr>]))
         else put_scan s p (i + 1))
      else (p, s))"
  by pat_completeness auto
termination
  by (relation "measure (\<lambda>(s, p, i). length s - i)") auto

declare put_scan.simps [simp del]

definition ntfs_put_shared :: "shared_slot list \<Rightarrow> addr \<Rightarrow> addr \<times> shared_slot list" where
  "ntfs_put_shared s p = put_scan s p 0"

text \<open>What the claims call an occupied slot, a free slot and a slot that matches a candidate.\<close>

definition occupied :: "shared_slot \<Rightarrow> bool" where
  "occupied sl = (cnt sl \<noteq> 0)"

definition slot_matches :: "memory \<Rightarrow> addr \<Rightarrow> 32 word \<Rightarrow> shared_slot \<Rightarrow> bool" where
  "slot_matches mem p bytes sl =
     (occupied sl \<and> len sl = bytes \<and>
      take (unat bytes) (mem (ptr sl)) = take (unat bytes) (mem p))"

text \<open>Occupied slots hold real buffers: the state every sequence of acquisitions of
  non-null buffers keeps.\<close>

definition registry_wf :: "shared_slot list \<Rightarrow> bool" where
  "registry_wf s = list_all (\<lambda>sl. occupied sl \<longrightarrow> ptr sl \<noteq> NULL) s"

section \<open>What super.c takes from headers\<close>

text \<open>
  \<open>ntfs.h\<close> and \<open>ntfs_fs.h\<close> are not among the sources. The constants that super.c
  takes from them are parameters of the model: every theorem below holds for all their
  values.
\<close>

record ntfs_h =
  NTFS_FLAGS_NEED_REPLAY :: "32 word"
  VOLUME_FLAG_DIRTY :: "16 word"
  ATTR_STD :: "32 word"
  ATTR_REPARSE :: "32 word"
  MAXIMUM_REPARSE_DATA_BUFFER_SIZE :: "64 word"
  MAXIMUM_BYTES_PER_MFT :: "32 word"
  MFTRECORD_FIXUP_OFFSET_1 :: "32 word"
  sizeof_ATTR_DEF_ENTRY :: "64 word"
  NTFS3_64BIT_CLUSTER :: bool

text \<open>A sample of values, used where a theorem is run on a concrete input.\<close>

definition ntfs_h_sample :: ntfs_h where
  "ntfs_h_sample =
     \<lparr>NTFS_FLAGS_NEED_REPLAY = 0x04000000, VOLUME_FLAG_DIRTY = 0x0001,
      ATTR_STD = 0x10, ATTR_REPARSE = 0xC0,
      MAXIMUM_REPARSE_DATA_BUFFER_SIZE = 0x4000,
      MAXIMUM_BYTES_PER_MFT = 4096, MFTRECORD_FIXUP_OFFSET_1 = 0x2A,
      sizeof_ATTR_DEF_ENTRY = 0xA0, NTFS3_64BIT_CLUSTER = False\<rparr>"

text \<open>Error numbers of the kernel, returned negated; \<open>SB_RDONLY\<close> of \<open>linux/fs.h\<close>.\<close>

definition EIO :: int where "EIO = 5"
definition ENOMEM :: int where "ENOMEM = 12"
definition EINVAL :: int where "EINVAL = 22"

definition SB_RDONLY :: "64 word" where
  "SB_RDONLY = 1"

definition sb_rdonly :: "64 word \<Rightarrow> bool" where
  "sb_rdonly s_flags = (s_flags AND SB_RDONLY \<noteq> 0)"

section \<open>The journal gate of \<open>ntfs_fill_super\<close>\<close>

text \<open>
  The lines between the replay of \<open>$LogFile\<close> and the load of \<open>$MFT\<close>. The inputs are
  \<open>sb->s_flags\<close>, \<open>sbi->flags\<close>, \<open>sbi->volume.flags\<close> and \<open>sbi->options.force\<close>. A
  refusal is the error that \<open>ntfs_fill_super\<close> returns with the warning it logs;
  \<open>Inr ()\<close> is the fall through to the next step.
\<close>

datatype warning = Warn_replay_failed | Warn_volume_dirty

definition journal_gate ::
  "ntfs_h \<Rightarrow> 64 word \<Rightarrow> 32 word \<Rightarrow> 16 word \<Rightarrow> bool \<Rightarrow> (int \<times> warning) + unit"
where
  "journal_gate h s_flags flags volume_flags force =
     (let is_ro = sb_rdonly s_flags in
      if flags AND NTFS_FLAGS_NEED_REPLAY h \<noteq> 0 then
        (if \<not> is_ro then Inl (- EINVAL, Warn_replay_failed) else Inr ())
      else if volume_flags AND VOLUME_FLAG_DIRTY h \<noteq> 0 then
        (if \<not> is_ro \<and> \<not> force then Inl (- EINVAL, Warn_volume_dirty) else Inr ())
      else Inr ())"

section \<open>The optional system files and the root\<close>

text \<open>
  The end of \<open>ntfs_fill_super\<close>, from \<open>if (is_ntfs3(sbi))\<close> to \<open>return 0\<close>. The
  routines it calls are in other files; what they return is the environment. The result
  is the list of routines called, in order, with the value \<open>ntfs_fill_super\<close> returns
  (0, or the error with which it goes to \<open>out\<close>).
\<close>

record tail_env =
  is_ntfs3 :: bool
  ntfs_security_init :: int
  ntfs_extend_init :: int
  ntfs_reparse_init :: int
  ntfs_objid_init :: int
  root_iget5 :: "int + addr"
  d_make_root :: addr

datatype call =
  Security_init | Extend_init | Reparse_init | Objid_init | Iget5_root | D_make_root

definition load_root :: "tail_env \<Rightarrow> call list \<times> int" where
  "load_root env =
     (case root_iget5 env of
        Inl err \<Rightarrow> ([Iget5_root], err)
      | Inr inode \<Rightarrow>
          if d_make_root env = NULL then ([Iget5_root, D_make_root], - EINVAL)
          else ([Iget5_root, D_make_root], 0))"

definition after_calls :: "call list \<Rightarrow> call list \<times> int \<Rightarrow> call list \<times> int" where
  "after_calls cs r = (cs @ fst r, snd r)"

definition fill_super_tail :: "tail_env \<Rightarrow> call list \<times> int" where
  "fill_super_tail env =
     (if is_ntfs3 env then
        (if ntfs_security_init env \<noteq> 0 then ([Security_init], ntfs_security_init env)
         else if ntfs_extend_init env \<noteq> 0 then
           after_calls [Security_init, Extend_init] (load_root env)
         else if ntfs_reparse_init env \<noteq> 0 then
           after_calls [Security_init, Extend_init, Reparse_init] (load_root env)
         else if ntfs_objid_init env \<noteq> 0 then
           after_calls [Security_init, Extend_init, Reparse_init, Objid_init] (load_root env)
         else
           after_calls [Security_init, Extend_init, Reparse_init, Objid_init] (load_root env))
      else load_root env)"

section \<open>Teardown: \<open>put_ntfs\<close>\<close>

text \<open>
  The fields of \<open>struct ntfs_sb_info\<close> that \<open>put_ntfs\<close> reads. A system file that was
  not loaded has a \<open>NULL\<close> handle. The result is the list of the calls \<open>put_ntfs\<close>
  makes, in order, and the registry as \<open>ntfs_put_shared\<close> leaves it.
\<close>

record sb_info_handles =
  new_rec :: addr
  upcase :: addr
  def_table :: addr
  mft_ni :: addr
  security_ni :: addr
  reparse_ni :: addr
  objid_ni :: addr
  volume_ni :: addr
  compress_frame_unc :: addr
  compress_ctx :: addr

datatype sysfile = MFT | SECURITY | REPARSE | OBJID | VOLUME

datatype freed = New_rec | Upcase | Def_table | Frame_unc | Compress_ctx | Sbi

datatype bitmap = Mft_bitmap | Used_bitmap

datatype index = Index_sii | Index_sdh | Index_r | Index_o

datatype action =
    Ntfs_free freed addr
  | Put_shared addr
  | Wnd_close bitmap
  | Iput sysfile
  | Ntfs_update_mftmirr
  | Indx_clear index
  | Clear_mount_options

definition iput_if :: "addr \<Rightarrow> sysfile \<Rightarrow> action list" where
  "iput_if ni f = (if ni \<noteq> NULL then [Iput f] else [])"

definition put_ntfs ::
  "shared_slot list \<Rightarrow> sb_info_handles \<Rightarrow> addr \<Rightarrow> action list \<times> shared_slot list"
where
  "put_ntfs s sbi sbi_addr =
     (case ntfs_put_shared s (upcase sbi) of
        (ret, s') \<Rightarrow>
          ([Ntfs_free New_rec (new_rec sbi),
            Put_shared (upcase sbi), Ntfs_free Upcase ret,
            Ntfs_free Def_table (def_table sbi),
            Wnd_close Mft_bitmap, Wnd_close Used_bitmap]
           @ iput_if (mft_ni sbi) MFT
           @ iput_if (security_ni sbi) SECURITY
           @ iput_if (reparse_ni sbi) REPARSE
           @ iput_if (objid_ni sbi) OBJID
           @ iput_if (volume_ni sbi) VOLUME
           @ [Ntfs_update_mftmirr,
              Indx_clear Index_sii, Indx_clear Index_sdh, Indx_clear Index_r,
              Indx_clear Index_o,
              Ntfs_free Frame_unc (compress_frame_unc sbi),
              Ntfs_free Compress_ctx (compress_ctx sbi),
              Clear_mount_options,
              Ntfs_free Sbi sbi_addr],
           s'))"

text \<open>The handle of a system file in \<open>struct ntfs_sb_info\<close>.\<close>

fun handle :: "sb_info_handles \<Rightarrow> sysfile \<Rightarrow> addr" where
  "handle sbi MFT = mft_ni sbi"
| "handle sbi SECURITY = security_ni sbi"
| "handle sbi REPARSE = reparse_ni sbi"
| "handle sbi OBJID = objid_ni sbi"
| "handle sbi VOLUME = volume_ni sbi"

text \<open>
  Order in a list of calls: \<open>before a b tr\<close> when the first \<open>a\<close> of \<open>tr\<close> is followed
  by a \<open>b\<close>. The system files in the order in which \<open>put_ntfs\<close> looks at their handles.
\<close>

fun before :: "'a \<Rightarrow> 'a \<Rightarrow> 'a list \<Rightarrow> bool" where
  "before a b [] = False"
| "before a b (x # xs) = (if x = a then b \<in> set xs else before a b xs)"

definition sysfiles :: "sysfile list" where
  "sysfiles = [MFT, SECURITY, REPARSE, OBJID, VOLUME]"

text \<open>Sample inputs, used where a theorem is run on a concrete input.\<close>

definition tail_env_sample :: "int \<Rightarrow> int \<Rightarrow> tail_env" where
  "tail_env_sample sec ext =
     \<lparr>is_ntfs3 = True, ntfs_security_init = sec, ntfs_extend_init = ext,
      ntfs_reparse_init = 0, ntfs_objid_init = 0, root_iget5 = Inr 64, d_make_root = 128\<rparr>"

definition sbi_sample :: sb_info_handles where
  "sbi_sample =
     \<lparr>new_rec = 16, upcase = 32, def_table = 48, mft_ni = 64, security_ni = 0,
      reparse_ni = 0, objid_ni = 0, volume_ni = 80, compress_frame_unc = 96,
      compress_ctx = 112\<rparr>"

section \<open>The boot sector: \<open>ntfs_init_from_boot\<close>\<close>

text \<open>
  Helpers of the kernel that super.c calls: \<open>is_power_of2\<close> of \<open>linux/log2.h\<close> (on
  \<open>unsigned long\<close>), \<open>blksize_bits\<close> of \<open>linux/blkdev.h\<close> (the loop that counts how
  often the size is halved until it is at most 256, starting from 8), the sector and
  page constants (pages of 4 KiB), and \<open>QuadAlign\<close> of \<open>ntfs.h\<close>, which rounds up to a
  multiple of 8.
\<close>

definition SECTOR_SHIFT :: nat where "SECTOR_SHIFT = 9"
definition SECTOR_SIZE :: "32 word" where "SECTOR_SIZE = 512"
definition PAGE_SHIFT :: nat where "PAGE_SHIFT = 12"
definition PAGE_SIZE :: "32 word" where "PAGE_SIZE = 4096"

definition is_power_of2 :: "64 word \<Rightarrow> bool" where
  "is_power_of2 n = (n \<noteq> 0 \<and> n AND (n - 1) = 0)"

function blksize_loop :: "nat \<Rightarrow> 32 word \<Rightarrow> nat" where
  "blksize_loop bits sz =
     (if drop_bit 1 sz > 256 then blksize_loop (bits + 1) (drop_bit 1 sz) else bits + 1)"
  by pat_completeness auto
termination
proof (relation "measure (\<lambda>(bits, sz). unat sz)")
  show "wf (measure (\<lambda>(bits, sz :: 32 word). unat sz))" by simp
next
  fix bits :: nat and sz :: "32 word"
  assume a: "256 < drop_bit 1 sz"
  have "sz \<noteq> 0" using a by auto
  then have "0 < unat sz" by (simp add: unat_gt_0)
  then have "unat sz div 2 < unat sz" by simp
  then have "unat (drop_bit 1 sz) < unat sz" by (simp add: drop_bit_eq_div unat_div)
  then show "((bits + 1, drop_bit 1 sz), (bits, sz)) \<in> measure (\<lambda>(bits, sz). unat sz)"
    by simp
qed

declare blksize_loop.simps [simp del]

definition blksize_bits :: "32 word \<Rightarrow> nat" where
  "blksize_bits sz = blksize_loop 8 sz"

definition QuadAlign :: "32 word \<Rightarrow> 32 word" where
  "QuadAlign n = (n + 7) AND NOT 7"

text \<open>
  A shift of a 32-bit value by a count given as an \<open>int\<close>. In \<open>true_sectors_per_clst\<close>
  the count \<open>0 - boot->sectors_per_clusters\<close> is negative, and for the two size fields
  it can exceed 31; C leaves such a shift undefined. The model takes the count modulo 32,
  as the shift instructions of x86 and arm64 do for a 32-bit operand.
\<close>

definition shl32 :: "32 word \<Rightarrow> int \<Rightarrow> 32 word" where
  "shl32 x n = push_bit (nat (n mod 32)) x"

text \<open>
  The fields of \<open>struct NTFS_BOOT\<close> that super.c reads. The struct is declared in
  \<open>ntfs.h\<close>: \<open>sectors_per_clusters\<close> is an unsigned byte (super.c compares it with
  \<open>0x80\<close>), \<open>record_size\<close> and \<open>index_size\<close> are signed bytes (super.c compares them
  with 0), read here with \<open>sint\<close>. The 64-bit fields are given as \<open>le64_to_cpu\<close> returns
  them.
\<close>

record NTFS_BOOT =
  system_id :: "8 word list"
  bytes_per_sector :: "8 word \<times> 8 word"
  sectors_per_clusters :: "8 word"
  sectors_per_volume :: "64 word"
  mft_clst :: "64 word"
  mft2_clst :: "64 word"
  record_size :: "8 word"
  index_size :: "8 word"
  serial_num :: "64 word"

definition NTFS_SYSTEM_ID :: "8 word list" where
  "NTFS_SYSTEM_ID = [0x4E, 0x54, 0x46, 0x53, 0x20, 0x20, 0x20, 0x20]"

definition true_sectors_per_clst :: "NTFS_BOOT \<Rightarrow> 32 word" where
  "true_sectors_per_clst boot =
     (if sectors_per_clusters boot \<le> 0x80 then ucast (sectors_per_clusters boot)
      else shl32 1 (0 - uint (sectors_per_clusters boot)))"

text \<open>The values that \<open>ntfs_init_from_boot\<close> derives, each named as its variable or field.\<close>

definition boot_sector_size :: "NTFS_BOOT \<Rightarrow> 32 word" where
  "boot_sector_size boot = push_bit 8 (ucast (snd (bytes_per_sector boot)))"

text \<open>The check of \<open>record_size\<close> and of \<open>index_size\<close>: true when the field is refused.\<close>

definition size_field_bad :: "8 word \<Rightarrow> bool" where
  "size_field_bad f =
     ((sint f < 0 \<and> SECTOR_SIZE > shl32 2 (- sint f)) \<or>
      (sint f \<ge> 0 \<and> \<not> is_power_of2 (scast f)))"

definition boot_sector_bits :: "NTFS_BOOT \<Rightarrow> nat" where
  "boot_sector_bits boot = blksize_bits (boot_sector_size boot)"

definition boot_fs_size :: "NTFS_BOOT \<Rightarrow> 64 word" where
  "boot_fs_size boot = push_bit (boot_sector_bits boot) (sectors_per_volume boot + 1)"

definition boot_cluster_size :: "NTFS_BOOT \<Rightarrow> 32 word" where
  "boot_cluster_size boot = boot_sector_size boot * true_sectors_per_clst boot"

definition boot_cluster_bits :: "NTFS_BOOT \<Rightarrow> nat" where
  "boot_cluster_bits boot = blksize_bits (boot_cluster_size boot)"

definition boot_record_size :: "NTFS_BOOT \<Rightarrow> 32 word" where
  "boot_record_size boot =
     (if sint (record_size boot) < 0 then shl32 1 (- sint (record_size boot))
      else shl32 (scast (record_size boot)) (int (boot_cluster_bits boot)))"

definition boot_index_size :: "NTFS_BOOT \<Rightarrow> 32 word" where
  "boot_index_size boot =
     (if sint (index_size boot) < 0 then shl32 1 (- sint (index_size boot))
      else shl32 (scast (index_size boot)) (int (boot_cluster_bits boot)))"

definition boot_volume_size :: "NTFS_BOOT \<Rightarrow> 64 word" where
  "boot_volume_size boot = push_bit (boot_sector_bits boot) (sectors_per_volume boot)"

definition boot_clusters :: "NTFS_BOOT \<Rightarrow> 64 word" where
  "boot_clusters boot = drop_bit (boot_cluster_bits boot) (boot_volume_size boot)"

text \<open>\<open>dev_size\<close> after \<open>dev_size += sector_size - 1\<close>, done when the sector sizes differ.\<close>

definition padded_dev_size :: "NTFS_BOOT \<Rightarrow> 32 word \<Rightarrow> 64 word \<Rightarrow> 64 word" where
  "padded_dev_size boot sector_size dev_size =
     (if boot_sector_size boot \<noteq> sector_size then dev_size + ucast (sector_size - 1)
      else dev_size)"

text \<open>
  The superblock fields that the function touches, and \<open>sb_set_blocksize\<close> of the kernel:
  it leaves the superblock as it is when the block device refuses the size (a size above
  the page size, below 512, not a power of two, or below the logical block size of the
  device, which is the \<open>sector_size\<close> that \<open>ntfs_fill_super\<close> passes).
\<close>

record super_block =
  s_flags :: "64 word"
  s_blocksize :: "64 word"
  s_blocksize_bits :: nat

definition sb_set_blocksize :: "32 word \<Rightarrow> super_block \<Rightarrow> 32 word \<Rightarrow> super_block" where
  "sb_set_blocksize lbs sb sz =
     (if sz > PAGE_SIZE \<or> sz < 512 \<or> \<not> is_power_of2 (ucast sz) \<or> sz < lbs then sb
      else sb\<lparr>s_blocksize := ucast sz, s_blocksize_bits := blksize_bits sz\<rparr>)"

text \<open>
  The fields of \<open>struct ntfs_sb_info\<close> that the function sets (the struct is declared in
  \<open>ntfs_fs.h\<close>; a field has the width of the expression assigned to it), and the header
  of the record template \<open>sbi->new_rec\<close>, whose signature and end marker are constants.
\<close>

record new_rec_header =
  fix_off :: "16 word"
  fix_num :: "16 word"
  attr_off :: "16 word"
  used :: "32 word"
  total :: "32 word"

record sb_info =
  sbi_sector_size :: "32 word"
  sbi_sector_bits :: nat
  sbi_cluster_size :: "32 word"
  sbi_cluster_bits :: nat
  sbi_mft_lbo :: "64 word"
  sbi_mft_lbo2 :: "64 word"
  sbi_cluster_mask :: "32 word"
  sbi_cluster_mask_inv :: "64 word"
  sbi_record_size :: "32 word"
  sbi_record_bits :: nat
  sbi_attr_size_tr :: "32 word"
  sbi_max_bytes_per_attr :: "32 word"
  sbi_index_size :: "32 word"
  sbi_volume_ser_num :: "64 word"
  sbi_volume_size :: "64 word"
  sbi_used_bitmap_nbits :: "64 word"
  sbi_new_rec :: new_rec_header
  sbi_block_mask :: "64 word"
  sbi_blocks_per_cluster :: "32 word"
  sbi_volume_blocks :: "64 word"
  sbi_maxbytes :: "64 word"
  sbi_maxbytes_sparse :: "64 word"

definition mk_new_rec :: "ntfs_h \<Rightarrow> 32 word \<Rightarrow> new_rec_header" where
  "mk_new_rec h rsize =
     (let fn = (ucast (drop_bit SECTOR_SHIFT rsize + 1) :: 16 word);
          ao = (ucast (QuadAlign (MFTRECORD_FIXUP_OFFSET_1 h + 2 * ucast fn)) :: 16 word)
      in \<lparr>fix_off = ucast (MFTRECORD_FIXUP_OFFSET_1 h), fix_num = fn, attr_off = ao,
          used = ucast ao + QuadAlign 4, total = rsize\<rparr>)"

definition mk_sb_info :: "ntfs_h \<Rightarrow> NTFS_BOOT \<Rightarrow> super_block \<Rightarrow> sb_info" where
  "mk_sb_info h boot sb =
     \<lparr>sbi_sector_size = boot_sector_size boot,
      sbi_sector_bits = boot_sector_bits boot,
      sbi_cluster_size = boot_cluster_size boot,
      sbi_cluster_bits = boot_cluster_bits boot,
      sbi_mft_lbo = push_bit (boot_cluster_bits boot) (mft_clst boot),
      sbi_mft_lbo2 = push_bit (boot_cluster_bits boot) (mft2_clst boot),
      sbi_cluster_mask = boot_cluster_size boot - 1,
      sbi_cluster_mask_inv = NOT (ucast (boot_cluster_size boot - 1)),
      sbi_record_size = boot_record_size boot,
      sbi_record_bits = blksize_bits (boot_record_size boot),
      sbi_attr_size_tr = drop_bit 4 (5 * boot_record_size boot),
      sbi_max_bytes_per_attr =
        boot_record_size boot - QuadAlign (MFTRECORD_FIXUP_OFFSET_1 h)
          - QuadAlign (drop_bit SECTOR_SHIFT (boot_record_size boot) * 2) - QuadAlign 4,
      sbi_index_size = boot_index_size boot,
      sbi_volume_ser_num = serial_num boot,
      sbi_volume_size = boot_volume_size boot,
      sbi_used_bitmap_nbits = boot_clusters boot,
      sbi_new_rec = mk_new_rec h (boot_record_size boot),
      sbi_block_mask = s_blocksize sb - 1,
      sbi_blocks_per_cluster = drop_bit (s_blocksize_bits sb) (boot_cluster_size boot),
      sbi_volume_blocks = drop_bit (s_blocksize_bits sb) (boot_volume_size boot),
      sbi_maxbytes =
        (if NTFS3_64BIT_CLUSTER h \<and>
            boot_clusters boot \<ge> push_bit (64 - boot_cluster_bits boot) 1
         then - 1
         else push_bit (boot_cluster_bits boot) (boot_clusters boot) - 1),
      sbi_maxbytes_sparse =
        (if NTFS3_64BIT_CLUSTER h then - 1
         else push_bit (boot_cluster_bits boot + 32) 1 - 1)\<rparr>"

datatype boot_warning = Warn_sector_size_differs | Warn_raw_volume

text \<open>
  \<open>ntfs_init_from_boot\<close>. The inputs: what \<open>ntfs_bread\<close> returns for block 0 (\<open>None\<close>
  when it fails), whether \<open>ntfs_alloc\<close> of the record template succeeds, the superblock,
  and the arguments \<open>sector_size\<close> and \<open>dev_size\<close>. The result is the error returned, or
  the fields of \<open>sbi\<close>, the superblock and the warnings logged. The checks stand in the
  order of the source; every \<open>goto out\<close> before the allocation returns \<open>-EINVAL\<close>.
\<close>

definition ntfs_init_from_boot ::
  "ntfs_h \<Rightarrow> NTFS_BOOT option \<Rightarrow> bool \<Rightarrow> super_block \<Rightarrow> 32 word \<Rightarrow> 64 word \<Rightarrow>
   int + (sb_info \<times> super_block \<times> boot_warning list)"
where
  "ntfs_init_from_boot h bread alloc_ok sb sector_size dev_size =
     (case bread of
        None \<Rightarrow> Inl (- EIO)
      | Some boot \<Rightarrow>
          if take 8 (system_id boot) \<noteq> NTFS_SYSTEM_ID then Inl (- EINVAL)
          else if fst (bytes_per_sector boot) \<noteq> 0 \<or> boot_sector_size boot < SECTOR_SIZE \<or>
                  \<not> is_power_of2 (ucast (boot_sector_size boot)) then Inl (- EINVAL)
          else if \<not> is_power_of2 (ucast (true_sectors_per_clst boot)) then Inl (- EINVAL)
          else if mft_clst boot * ucast (true_sectors_per_clst boot) \<ge> sectors_per_volume boot
            then Inl (- EINVAL)
          else if mft2_clst boot * ucast (true_sectors_per_clst boot) \<ge> sectors_per_volume boot
            then Inl (- EINVAL)
          else if size_field_bad (record_size boot) then Inl (- EINVAL)
          else if size_field_bad (index_size boot) then Inl (- EINVAL)
          else if boot_cluster_size boot < boot_sector_size boot then Inl (- EINVAL)
          else if boot_record_size boot > MAXIMUM_BYTES_PER_MFT h then Inl (- EINVAL)
          else if \<not> NTFS3_64BIT_CLUSTER h \<and> drop_bit 32 (boot_clusters boot) \<noteq> 0
            then Inl (- EINVAL)
          else if \<not> alloc_ok then Inl (- ENOMEM)
          else
            let differ = (boot_sector_size boot \<noteq> sector_size);
                raw = (padded_dev_size boot sector_size dev_size < boot_fs_size boot);
                sb1 = (if raw then sb\<lparr>s_flags := s_flags sb OR SB_RDONLY\<rparr> else sb);
                sb2 = (if boot_cluster_size boot < PAGE_SIZE
                       then sb_set_blocksize sector_size sb1 (boot_cluster_size boot)
                       else sb1)
            in Inr (mk_sb_info h boot sb2, sb2,
                    (if differ then [Warn_sector_size_differs] else []) @
                    (if raw then [Warn_raw_volume] else [])))"

text \<open>
  A boot sector passes every check that ends in \<open>-EINVAL\<close>: the conjunction of the
  conditions under which \<open>ntfs_init_from_boot\<close> goes on to the allocation.
\<close>

definition boot_accepted :: "ntfs_h \<Rightarrow> NTFS_BOOT \<Rightarrow> bool" where
  "boot_accepted h boot =
     (take 8 (system_id boot) = NTFS_SYSTEM_ID \<and>
      fst (bytes_per_sector boot) = 0 \<and> SECTOR_SIZE \<le> boot_sector_size boot \<and>
      is_power_of2 (ucast (boot_sector_size boot)) \<and>
      is_power_of2 (ucast (true_sectors_per_clst boot)) \<and>
      mft_clst boot * ucast (true_sectors_per_clst boot) < sectors_per_volume boot \<and>
      mft2_clst boot * ucast (true_sectors_per_clst boot) < sectors_per_volume boot \<and>
      \<not> size_field_bad (record_size boot) \<and> \<not> size_field_bad (index_size boot) \<and>
      boot_sector_size boot \<le> boot_cluster_size boot \<and>
      boot_record_size boot \<le> MAXIMUM_BYTES_PER_MFT h \<and>
      (NTFS3_64BIT_CLUSTER h \<or> drop_bit 32 (boot_clusters boot) = 0))"

text \<open>
  The decoding of the sectors-per-cluster byte as claim C5 words it: a byte read as a
  signed value \<open>v\<close> is the count itself when positive, and \<open>2 ^ (- v)\<close> otherwise.
\<close>

definition signed_byte_rule :: "8 word \<Rightarrow> nat" where
  "signed_byte_rule b = (if 0 < sint b then nat (sint b) else 2 ^ nat (- sint b))"

definition power_of_two :: "nat \<Rightarrow> bool" where
  "power_of_two n = (\<exists>k. n = 2 ^ k)"

text \<open>Sample inputs: a volume of 2049 sectors of 512 bytes with clusters of 8 sectors.\<close>

definition boot_sample :: NTFS_BOOT where
  "boot_sample =
     \<lparr>system_id = [0x4E, 0x54, 0x46, 0x53, 0x20, 0x20, 0x20, 0x20],
      bytes_per_sector = (0, 2), sectors_per_clusters = 8,
      sectors_per_volume = 2048, mft_clst = 4, mft2_clst = 8,
      record_size = 0xF6, index_size = 0xF4, serial_num = 0x1234\<rparr>"

definition sb_sample :: super_block where
  "sb_sample = \<lparr>s_flags = 0, s_blocksize = 4096, s_blocksize_bits = 12\<rparr>"

section \<open>The attribute definitions: \<open>$AttrDef\<close> in \<open>ntfs_fill_super\<close>\<close>

text \<open>
  The two fields of \<open>struct ATTR_DEF_ENTRY\<close> that super.c reads, as \<open>le32_to_cpu\<close> and
  \<open>le64_to_cpu\<close> return them.
\<close>

record ATTR_DEF_ENTRY =
  type :: "32 word"
  max_sz :: "64 word"

text \<open>
  The loop that copies the file page by page. \<open>dn\<close> is the \<open>u32\<close> counter \<open>done\<close>, which
  wraps; \<open>map_page idx\<close> is the error of \<open>ntfs_map_page\<close> for page \<open>idx\<close>, if it fails;
  \<open>t0\<close> is the type of the first entry, which is in the buffer once page 0 is copied.
  For \<open>bytes\<close> above \<open>2 ^ 32 - PAGE_SIZE\<close> the counter wraps before it reaches \<open>bytes\<close>
  and the loop need not end: the result \<open>None\<close>.
\<close>

partial_function (option) attr_pages ::
  "ntfs_h \<Rightarrow> (32 word \<Rightarrow> int option) \<Rightarrow> 32 word \<Rightarrow> 32 word \<Rightarrow> 32 word \<Rightarrow> 32 word \<Rightarrow>
   (int + unit) option"
where
  "attr_pages h map_page t0 bytes dn idx =
     (if dn < bytes then
        (case map_page idx of
           Some err \<Rightarrow> Some (Inl err)
         | None \<Rightarrow>
             if idx = 0 \<and> ATTR_STD h \<noteq> t0 then Some (Inl (- EINVAL))
             else attr_pages h map_page t0 bytes (dn + PAGE_SIZE) (idx + 1))
      else Some (Inr ()))"

text \<open>
  The loop over the entries after the first: \<open>prev\<close> is \<open>t[-1]\<close>, the list holds the
  entries from \<open>t\<close> on that lie within \<open>bytes\<close>, the pair is \<open>sbi->def_entries\<close> and
  \<open>sbi->reparse.max_size\<close>.
\<close>

fun def_scan ::
  "ntfs_h \<Rightarrow> ATTR_DEF_ENTRY \<Rightarrow> ATTR_DEF_ENTRY list \<Rightarrow> nat \<times> 64 word \<Rightarrow> nat \<times> 64 word"
where
  "def_scan h prev [] (n, mx) = (n, mx)"
| "def_scan h prev (t # ts) (n, mx) =
     (if type t AND 0xF \<noteq> 0 \<or> type prev \<ge> type t then (n, mx)
      else def_scan h t ts (n + 1, if type t = ATTR_REPARSE h then max_sz t else mx))"

text \<open>
  The load of \<open>$AttrDef\<close>, from the check of the size of the file to the end of the loop
  over the entries. The inputs: whether \<open>ntfs_alloc\<close> succeeds, the errors of
  \<open>ntfs_map_page\<close>, \<open>inode->i_size\<close>, and the content of the file as an array of
  entries. \<open>bytes\<close> is a \<open>u32\<close>: the size of the file is truncated to 32 bits. The entry
  with index \<open>k\<close> lies within \<open>bytes\<close> when \<open>k\<close> is below \<open>bytes\<close> divided by the size of
  an entry, which is what \<open>done + sizeof(struct ATTR_DEF_ENTRY) <= bytes\<close> tests. The
  result is the error of the mount, or \<open>def_entries\<close> and \<open>reparse.max_size\<close>.
\<close>

definition load_attrdef ::
  "ntfs_h \<Rightarrow> bool \<Rightarrow> (32 word \<Rightarrow> int option) \<Rightarrow> 64 word \<Rightarrow> (nat \<Rightarrow> ATTR_DEF_ENTRY) \<Rightarrow>
   (int + nat \<times> 64 word) option"
where
  "load_attrdef h alloc_ok map_page i_size t =
     (if i_size < sizeof_ATTR_DEF_ENTRY h then Some (Inl (- EINVAL))
      else
        let bytes = (ucast i_size :: 32 word) in
        if \<not> alloc_ok then Some (Inl (- ENOMEM))
        else
          (case attr_pages h map_page (type (t 0)) bytes 0 0 of
             None \<Rightarrow> None
           | Some (Inl err) \<Rightarrow> Some (Inl err)
           | Some (Inr u) \<Rightarrow>
               Some (Inr (def_scan h (t 0)
                 (map t [1 ..< unat bytes div unat (sizeof_ATTR_DEF_ENTRY h)])
                 (1, MAXIMUM_REPARSE_DATA_BUFFER_SIZE h)))))"

text \<open>
  The order that claim C7 asks of a table: from the second entry on, every type is
  above the type before it and has its low four bits zero.
\<close>

fun ascending_aligned :: "ATTR_DEF_ENTRY list \<Rightarrow> bool" where
  "ascending_aligned [] = True"
| "ascending_aligned [a] = True"
| "ascending_aligned (a # b # es) =
     (type a < type b \<and> type b AND 0xF = 0 \<and> ascending_aligned (b # es))"

text \<open>Sample tables: the types of three entries, the third out of order.\<close>

definition table_sample :: "32 word \<Rightarrow> nat \<Rightarrow> ATTR_DEF_ENTRY" where
  "table_sample first k =
     \<lparr>type = (if k = 0 then first else if k = 1 then 0x20 else 0x10), max_sz = 0x100\<rparr>"

section \<open>Properties of the registry\<close>

lemma put_scan_absent:
  "\<forall>k. i \<le> k \<and> k < length s \<longrightarrow> \<not> (occupied (s ! k) \<and> ptr (s ! k) = p) \<Longrightarrow>
   put_scan s p i = (p, s)"
proof (induction s p i rule: put_scan.induct)
  case (1 s p i)
  show ?case
  proof (cases "i < length s")
    case True
    with "1.prems" have no: "\<not> (cnt (s ! i) \<noteq> 0 \<and> ptr (s ! i) = p)"
      by (auto simp: occupied_def)
    have "put_scan s p (i + 1) = (p, s)"
      using "1.IH" [OF True no] "1.prems" by simp
    with True no show ?thesis
      by (subst put_scan.simps) auto
  next
    case False
    then show ?thesis by (subst put_scan.simps) simp
  qed
qed

lemma set_scan_length: "length (fst (set_scan mem p bytes s i j)) = length s"
proof (induction mem p bytes s i j rule: set_scan.induct)
  case (1 mem p bytes s i j)
  show ?case
  proof (cases "i < length s")
    case False
    then show ?thesis by (subst set_scan.simps) simp
  next
    case lt: True
    show ?thesis
    proof (cases "cnt (s ! i) = 0")
      case True
      with lt "1.IH"(1) show ?thesis by (subst set_scan.simps) simp
    next
      case c: False
      show ?thesis
      proof (cases "bytes = len (s ! i) \<and> memcmp_eq mem (ptr (s ! i)) p (unat bytes)")
        case True
        with lt c show ?thesis by (subst set_scan.simps) auto
      next
        case False
        with lt c "1.IH"(2) show ?thesis by (subst set_scan.simps) auto
      qed
    qed
  qed
qed

lemma set_scan_no_match:
  "\<forall>k. i \<le> k \<and> k < length s \<longrightarrow> \<not> slot_matches mem p bytes (s ! k) \<Longrightarrow>
   \<exists>j'. set_scan mem p bytes s i j = (s, NULL, j') \<and>
     ((\<exists>k. i \<le> k \<and> k < length s \<and> \<not> occupied (s ! k)) \<longrightarrow>
        0 \<le> j' \<and> i \<le> nat j' \<and> nat j' < length s \<and> \<not> occupied (s ! nat j') \<and>
        (\<forall>k. nat j' < k \<and> k < length s \<longrightarrow> occupied (s ! k))) \<and>
     (\<not> (\<exists>k. i \<le> k \<and> k < length s \<and> \<not> occupied (s ! k)) \<longrightarrow> j' = j)"
proof (induction mem p bytes s i j rule: set_scan.induct)
  case (1 mem p bytes s i j)
  show ?case
  proof (cases "i < length s")
    case False
    then show ?thesis by (subst set_scan.simps) auto
  next
    case True
    note lt = True
    have rest: "\<forall>k. i + 1 \<le> k \<and> k < length s \<longrightarrow> \<not> slot_matches mem p bytes (s ! k)"
      using "1.prems" by auto
    show ?thesis
    proof (cases "cnt (s ! i) = 0")
      case True
      from "1.IH"(1) [OF lt True rest] obtain j' where
        j': "set_scan mem p bytes s (i + 1) (int i) = (s, NULL, j')"
        and a: "(\<exists>k. i + 1 \<le> k \<and> k < length s \<and> \<not> occupied (s ! k)) \<longrightarrow>
            0 \<le> j' \<and> i + 1 \<le> nat j' \<and> nat j' < length s \<and> \<not> occupied (s ! nat j') \<and>
            (\<forall>k. nat j' < k \<and> k < length s \<longrightarrow> occupied (s ! k))"
        and b: "\<not> (\<exists>k. i + 1 \<le> k \<and> k < length s \<and> \<not> occupied (s ! k)) \<longrightarrow> j' = int i"
        by blast
      have eq: "set_scan mem p bytes s i j = (s, NULL, j')"
        using lt True j' by (subst set_scan.simps) simp
      have free: "\<not> occupied (s ! i)" using True by (simp add: occupied_def)
      show ?thesis
      proof (cases "\<exists>k. i + 1 \<le> k \<and> k < length s \<and> \<not> occupied (s ! k)")
        case True
        with a eq show ?thesis by auto
      next
        case False
        with b have "j' = int i" by simp
        moreover have "\<forall>k. i < k \<and> k < length s \<longrightarrow> occupied (s ! k)"
          using False by auto
        ultimately show ?thesis using eq free lt by auto
      qed
    next
      case False
      have nm: "\<not> (bytes = len (s ! i) \<and> memcmp_eq mem (ptr (s ! i)) p (unat bytes))"
        using "1.prems" lt False by (auto simp: slot_matches_def occupied_def memcmp_eq_def)
      from "1.IH"(2) [OF lt False nm rest] obtain j' where
        j': "set_scan mem p bytes s (i + 1) j = (s, NULL, j')"
        and a: "(\<exists>k. i + 1 \<le> k \<and> k < length s \<and> \<not> occupied (s ! k)) \<longrightarrow>
            0 \<le> j' \<and> i + 1 \<le> nat j' \<and> nat j' < length s \<and> \<not> occupied (s ! nat j') \<and>
            (\<forall>k. nat j' < k \<and> k < length s \<longrightarrow> occupied (s ! k))"
        and b: "\<not> (\<exists>k. i + 1 \<le> k \<and> k < length s \<and> \<not> occupied (s ! k)) \<longrightarrow> j' = j"
        by blast
      have eq: "set_scan mem p bytes s i j = (s, NULL, j')"
        using lt False nm j' by (subst set_scan.simps) auto
      have occ: "occupied (s ! i)" using False by (simp add: occupied_def)
      have iff: "(\<exists>k. i \<le> k \<and> k < length s \<and> \<not> occupied (s ! k)) \<longleftrightarrow>
                 (\<exists>k. i + 1 \<le> k \<and> k < length s \<and> \<not> occupied (s ! k))"
      proof
        assume "\<exists>k. i \<le> k \<and> k < length s \<and> \<not> occupied (s ! k)"
        then obtain k where k: "i \<le> k" "k < length s" "\<not> occupied (s ! k)" by blast
        with occ have "k \<noteq> i" by auto
        with k have "i + 1 \<le> k" by simp
        with k show "\<exists>k. i + 1 \<le> k \<and> k < length s \<and> \<not> occupied (s ! k)" by blast
      next
        assume "\<exists>k. i + 1 \<le> k \<and> k < length s \<and> \<not> occupied (s ! k)"
        then obtain k where "i + 1 \<le> k" "k < length s" "\<not> occupied (s ! k)" by blast
        then have "i \<le> k \<and> k < length s \<and> \<not> occupied (s ! k)" by simp
        then show "\<exists>k. i \<le> k \<and> k < length s \<and> \<not> occupied (s ! k)" by blast
      qed
      have a': "(\<exists>k. i \<le> k \<and> k < length s \<and> \<not> occupied (s ! k)) \<longrightarrow>
            0 \<le> j' \<and> i \<le> nat j' \<and> nat j' < length s \<and> \<not> occupied (s ! nat j') \<and>
            (\<forall>k. nat j' < k \<and> k < length s \<longrightarrow> occupied (s ! k))"
      proof
        assume "\<exists>k. i \<le> k \<and> k < length s \<and> \<not> occupied (s ! k)"
        with iff have "\<exists>k. i + 1 \<le> k \<and> k < length s \<and> \<not> occupied (s ! k)" by blast
        with a have "0 \<le> j' \<and> i + 1 \<le> nat j' \<and> nat j' < length s \<and> \<not> occupied (s ! nat j') \<and>
            (\<forall>k. nat j' < k \<and> k < length s \<longrightarrow> occupied (s ! k))" by blast
        then show "0 \<le> j' \<and> i \<le> nat j' \<and> nat j' < length s \<and> \<not> occupied (s ! nat j') \<and>
            (\<forall>k. nat j' < k \<and> k < length s \<longrightarrow> occupied (s ! k))" by simp
      qed
      have b': "\<not> (\<exists>k. i \<le> k \<and> k < length s \<and> \<not> occupied (s ! k)) \<longrightarrow> j' = j"
        using iff b by blast
      show ?thesis using eq a' b' by blast
    qed
  qed
qed

lemma set_scan_first_match:
  "i \<le> m \<Longrightarrow> m < length s \<Longrightarrow> slot_matches mem p bytes (s ! m) \<Longrightarrow>
   \<forall>k. i \<le> k \<and> k < m \<longrightarrow> \<not> slot_matches mem p bytes (s ! k) \<Longrightarrow>
   \<exists>j'. set_scan mem p bytes s i j =
           (s[m := (s ! m)\<lparr>cnt := cnt (s ! m) + 1\<rparr>], ptr (s ! m), j')"
proof (induction mem p bytes s i j rule: set_scan.induct)
  case (1 mem p bytes s i j)
  have lt: "i < length s" using "1.prems" by simp
  show ?case
  proof (cases "i = m")
    case True
    with "1.prems" lt show ?thesis
      by (subst set_scan.simps) (auto simp: slot_matches_def occupied_def memcmp_eq_def)
  next
    case False
    with "1.prems" have im: "i + 1 \<le> m" by simp
    have nmi: "\<not> slot_matches mem p bytes (s ! i)"
      using "1.prems" False by simp
    have rest: "\<forall>k. i + 1 \<le> k \<and> k < m \<longrightarrow> \<not> slot_matches mem p bytes (s ! k)"
      using "1.prems" by auto
    show ?thesis
    proof (cases "cnt (s ! i) = 0")
      case True
      from "1.IH"(1) [OF lt True im "1.prems"(2,3) rest] lt True show ?thesis
        by (subst set_scan.simps) simp
    next
      case c: False
      have nm: "\<not> (bytes = len (s ! i) \<and> memcmp_eq mem (ptr (s ! i)) p (unat bytes))"
        using nmi c by (auto simp: slot_matches_def occupied_def memcmp_eq_def)
      from "1.IH"(2) [OF lt c nm im "1.prems"(2,3) rest] lt c nm show ?thesis
        by (subst set_scan.simps) auto
    qed
  qed
qed

lemma registry_wf_nth:
  "registry_wf s \<Longrightarrow> k < length s \<Longrightarrow> occupied (s ! k) \<Longrightarrow> ptr (s ! k) \<noteq> NULL"
  by (simp add: registry_wf_def list_all_length)

lemma set_scan_init:
  "set_scan mem p n s_shared_init 0 (- 1) = (s_shared_init, NULL, 7)"
  by (simp add: set_scan.simps s_shared_init_def eval_nat_numeral)

lemma set_shared_first:
  "ntfs_set_shared mem s_shared_init p n =
     (p, s_shared_init[7 := \<lparr>ptr = p, len = n, cnt = 1\<rparr>])"
  by (simp add: ntfs_set_shared_def set_scan_init)

lemma set_scan_second:
  "memcmp_eq mem p1 p2 (unat n) \<Longrightarrow>
   set_scan mem p2 n (s_shared_init[7 := \<lparr>ptr = p1, len = n, cnt = 1\<rparr>]) 0 (- 1) =
     (s_shared_init[7 := \<lparr>ptr = p1, len = n, cnt = 2\<rparr>], p1, 6)"
  by (simp add: set_scan.simps s_shared_init_def eval_nat_numeral)

lemma put_first:
  "ntfs_put_shared (s_shared_init[7 := \<lparr>ptr = p1, len = n, cnt = 2\<rparr>]) p1 =
     (NULL, s_shared_init[7 := \<lparr>ptr = p1, len = n, cnt = 1\<rparr>])"
  by (simp add: ntfs_put_shared_def put_scan.simps s_shared_init_def eval_nat_numeral)

lemma put_second:
  "ntfs_put_shared (s_shared_init[7 := \<lparr>ptr = p1, len = n, cnt = 1\<rparr>]) p1 =
     (p1, s_shared_init[7 := \<lparr>ptr = p1, len = n, cnt = 0\<rparr>])"
  by (simp add: ntfs_put_shared_def put_scan.simps s_shared_init_def eval_nat_numeral)

text \<open>
  The registry starts with occupied slots that hold non-null pointers, and keeps them so
  under every acquisition of a non-null buffer and every release.
\<close>

lemma set_scan_shape:
  "j = - 1 \<or> (0 \<le> j \<and> nat j < length s) \<Longrightarrow>
   (\<exists>j'. set_scan mem p bytes s i j = (s, NULL, j') \<and>
      (j' = - 1 \<or> (0 \<le> j' \<and> nat j' < length s))) \<or>
   (\<exists>m j'. m < length s \<and> occupied (s ! m) \<and>
      set_scan mem p bytes s i j =
        (s[m := (s ! m)\<lparr>cnt := cnt (s ! m) + 1\<rparr>], ptr (s ! m), j'))"
proof (induction mem p bytes s i j rule: set_scan.induct)
  case (1 mem p bytes s i j)
  show ?case
  proof (cases "i < length s")
    case False
    with "1.prems" show ?thesis by (subst set_scan.simps) simp
  next
    case lt: True
    show ?thesis
    proof (cases "cnt (s ! i) = 0")
      case True
      have "int i = - 1 \<or> (0 \<le> int i \<and> nat (int i) < length s)" using lt by simp
      note ih = "1.IH"(1) [OF lt True this]
      have eq: "set_scan mem p bytes s i j = set_scan mem p bytes s (i + 1) (int i)"
        using lt True by (subst set_scan.simps) simp
      from ih show ?thesis by (simp only: eq)
    next
      case c: False
      show ?thesis
      proof (cases "bytes = len (s ! i) \<and> memcmp_eq mem (ptr (s ! i)) p (unat bytes)")
        case True
        have "i < length s \<and> occupied (s ! i) \<and>
            set_scan mem p bytes s i j =
              (s[i := (s ! i)\<lparr>cnt := cnt (s ! i) + 1\<rparr>], ptr (s ! i), j)"
          using lt c True by (subst set_scan.simps) (auto simp: occupied_def)
        then show ?thesis by blast
      next
        case False
        note ih = "1.IH"(2) [OF lt c False "1.prems"]
        have eq: "set_scan mem p bytes s i j = set_scan mem p bytes s (i + 1) j"
          using lt c False by (subst set_scan.simps) auto
        from ih show ?thesis by (simp only: eq)
      qed
    qed
  qed
qed

lemma registry_wf_init: "registry_wf s_shared_init"
  by (simp add: registry_wf_def s_shared_init_def occupied_def list_all_length)

lemma registry_wf_update:
  "registry_wf s \<Longrightarrow> (occupied sl \<longrightarrow> ptr sl \<noteq> NULL) \<Longrightarrow> registry_wf (s[k := sl])"
proof -
  assume wf: "registry_wf s" and sl: "occupied sl \<longrightarrow> ptr sl \<noteq> NULL"
  have "occupied (s[k := sl] ! n) \<longrightarrow> ptr (s[k := sl] ! n) \<noteq> NULL"
    if n: "n < length (s[k := sl])" for n
  proof (cases "n = k")
    case True
    with n sl show ?thesis by simp
  next
    case False
    with n wf show ?thesis by (simp add: registry_wf_def list_all_length)
  qed
  then show ?thesis by (simp add: registry_wf_def list_all_length)
qed

lemma set_shared_keeps_wf:
  assumes wf: "registry_wf s" and p: "p \<noteq> NULL"
  shows "registry_wf (snd (ntfs_set_shared mem s p bytes))"
proof -
  from set_scan_shape [of "- 1" s mem p bytes 0]
  consider j' where "set_scan mem p bytes s 0 (- 1) = (s, NULL, j')"
    | m j' where "m < length s" "occupied (s ! m)"
        "set_scan mem p bytes s 0 (- 1) =
           (s[m := (s ! m)\<lparr>cnt := cnt (s ! m) + 1\<rparr>], ptr (s ! m), j')"
    by auto
  then show ?thesis
  proof cases
    case 1
    with wf p show ?thesis
      by (simp add: ntfs_set_shared_def registry_wf_update)
  next
    case 2
    from wf 2(1,2) have nn: "ptr (s ! m) \<noteq> NULL" by (rule registry_wf_nth)
    then have "registry_wf (s[m := (s ! m)\<lparr>cnt := cnt (s ! m) + 1\<rparr>])"
      using wf by (intro registry_wf_update) simp_all
    with 2(3) nn show ?thesis
      by (simp add: ntfs_set_shared_def)
  qed
qed

lemma put_scan_keeps_wf: "registry_wf s \<Longrightarrow> registry_wf (snd (put_scan s p i))"
proof (induction s p i rule: put_scan.induct)
  case (1 s p i)
  show ?case
  proof (cases "i < length s")
    case False
    with "1.prems" show ?thesis by (subst put_scan.simps) simp
  next
    case lt: True
    show ?thesis
    proof (cases "cnt (s ! i) \<noteq> 0 \<and> ptr (s ! i) = p")
      case True
      from "1.prems" lt True have "ptr (s ! i) \<noteq> NULL"
        by (intro registry_wf_nth) (simp_all add: occupied_def)
      then have "registry_wf (s[i := (s ! i)\<lparr>cnt := cnt (s ! i) - 1\<rparr>])"
        using "1.prems" by (intro registry_wf_update) simp_all
      with lt True show ?thesis
        by (subst put_scan.simps) (simp add: Let_def)
    next
      case False
      from "1.IH" [OF lt False "1.prems"] lt False show ?thesis
        by (subst put_scan.simps) auto
    qed
  qed
qed

lemma put_shared_keeps_wf: "registry_wf s \<Longrightarrow> registry_wf (snd (ntfs_put_shared s p))"
  by (simp add: ntfs_put_shared_def put_scan_keeps_wf)


text \<open>
  Claim C3. A candidate offered to \<open>ntfs_set_shared\<close>: when an occupied slot holds a
  buffer of the same length and the same bytes, the count of the first such slot goes up
  by one and the pointer stored there is returned; when no slot matches and a slot is
  free, the candidate is stored in a free slot with count 1 and the candidate is
  returned; when no slot matches and none is free, \<open>NULL\<close> is returned and the array is
  as before.
\<close>

theorem C3_set_shared:
  assumes wf: "registry_wf s"
  shows "((\<exists>k<length s. slot_matches mem p bytes (s ! k)) \<longrightarrow>
            (\<exists>m<length s. slot_matches mem p bytes (s ! m) \<and>
               (\<forall>k<m. \<not> slot_matches mem p bytes (s ! k)) \<and>
               ntfs_set_shared mem s p bytes =
                 (ptr (s ! m), s[m := (s ! m)\<lparr>cnt := cnt (s ! m) + 1\<rparr>]))) \<and>
         (\<not> (\<exists>k<length s. slot_matches mem p bytes (s ! k)) \<and>
            (\<exists>k<length s. \<not> occupied (s ! k)) \<longrightarrow>
            (\<exists>f<length s. \<not> occupied (s ! f) \<and>
               ntfs_set_shared mem s p bytes =
                 (p, s[f := \<lparr>ptr = p, len = bytes, cnt = 1\<rparr>]))) \<and>
         (\<not> (\<exists>k<length s. slot_matches mem p bytes (s ! k)) \<and>
            \<not> (\<exists>k<length s. \<not> occupied (s ! k)) \<longrightarrow>
            ntfs_set_shared mem s p bytes = (NULL, s))"
proof (intro conjI impI)
  assume "\<exists>k<length s. slot_matches mem p bytes (s ! k)"
  then obtain k where k: "k < length s" "slot_matches mem p bytes (s ! k)" by blast
  define m where "m = (LEAST k. k < length s \<and> slot_matches mem p bytes (s ! k))"
  have mk: "m < length s \<and> slot_matches mem p bytes (s ! m)"
    unfolding m_def using k by (intro LeastI [of "\<lambda>k. k < length s \<and> slot_matches mem p bytes (s ! k)" k]) simp
  have least: "\<forall>k<m. \<not> slot_matches mem p bytes (s ! k)"
  proof (intro allI impI)
    fix k' assume "k' < m"
    then have "\<not> (k' < length s \<and> slot_matches mem p bytes (s ! k'))"
      unfolding m_def by (rule not_less_Least)
    moreover have "k' < length s" using \<open>k' < m\<close> mk by simp
    ultimately show "\<not> slot_matches mem p bytes (s ! k')" by simp
  qed
  have l2: "\<forall>k. 0 \<le> k \<and> k < m \<longrightarrow> \<not> slot_matches mem p bytes (s ! k)"
    using least by simp
  from set_scan_first_match [OF le0 conjunct1 [OF mk] conjunct2 [OF mk] l2, of "- 1"]
  obtain j' where sc: "set_scan mem p bytes s 0 (- 1) =
      (s[m := (s ! m)\<lparr>cnt := cnt (s ! m) + 1\<rparr>], ptr (s ! m), j')"
    by (rule exE)
  have "occupied (s ! m)" using mk by (simp add: slot_matches_def)
  with wf mk have "ptr (s ! m) \<noteq> NULL" by (simp add: registry_wf_nth)
  with sc have "ntfs_set_shared mem s p bytes =
      (ptr (s ! m), s[m := (s ! m)\<lparr>cnt := cnt (s ! m) + 1\<rparr>])"
    by (simp add: ntfs_set_shared_def)
  with mk least show "\<exists>m<length s. slot_matches mem p bytes (s ! m) \<and>
               (\<forall>k<m. \<not> slot_matches mem p bytes (s ! k)) \<and>
               ntfs_set_shared mem s p bytes =
                 (ptr (s ! m), s[m := (s ! m)\<lparr>cnt := cnt (s ! m) + 1\<rparr>])"
    by blast
next
  assume a: "\<not> (\<exists>k<length s. slot_matches mem p bytes (s ! k)) \<and>
            (\<exists>k<length s. \<not> occupied (s ! k))"
  then have nm: "\<forall>k. 0 \<le> k \<and> k < length s \<longrightarrow> \<not> slot_matches mem p bytes (s ! k)" by simp
  from a have fr: "\<exists>k. 0 \<le> k \<and> k < length s \<and> \<not> occupied (s ! k)" by simp
  from set_scan_no_match [OF nm, of "- 1"] obtain j' where
    sc: "set_scan mem p bytes s 0 (- 1) = (s, NULL, j')"
    and imp: "(\<exists>k. 0 \<le> k \<and> k < length s \<and> \<not> occupied (s ! k)) \<longrightarrow>
        0 \<le> j' \<and> 0 \<le> nat j' \<and> nat j' < length s \<and> \<not> occupied (s ! nat j') \<and>
        (\<forall>k. nat j' < k \<and> k < length s \<longrightarrow> occupied (s ! k))"
    by (elim exE conjE)
  from imp fr have j': "0 \<le> j'" "nat j' < length s" "\<not> occupied (s ! nat j')"
    by (elim impE; simp)+
  from j' have "j' \<noteq> - 1" by simp
  with sc have "ntfs_set_shared mem s p bytes =
      (p, s[nat j' := \<lparr>ptr = p, len = bytes, cnt = 1\<rparr>])"
    by (simp add: ntfs_set_shared_def)
  with j' show "\<exists>f<length s. \<not> occupied (s ! f) \<and>
               ntfs_set_shared mem s p bytes =
                 (p, s[f := \<lparr>ptr = p, len = bytes, cnt = 1\<rparr>])"
    by blast
next
  assume a: "\<not> (\<exists>k<length s. slot_matches mem p bytes (s ! k)) \<and>
            \<not> (\<exists>k<length s. \<not> occupied (s ! k))"
  then have nm: "\<forall>k. 0 \<le> k \<and> k < length s \<longrightarrow> \<not> slot_matches mem p bytes (s ! k)" by simp
  from a have fr: "\<not> (\<exists>k. 0 \<le> k \<and> k < length s \<and> \<not> occupied (s ! k))" by simp
  from set_scan_no_match [OF nm, of "- 1"] obtain j' where
    sc: "set_scan mem p bytes s 0 (- 1) = (s, NULL, j')"
    and imp: "\<not> (\<exists>k. 0 \<le> k \<and> k < length s \<and> \<not> occupied (s ! k)) \<longrightarrow> j' = - 1"
    by (elim exE conjE)
  from imp fr have "j' = - 1" by (rule mp)
  with sc show "ntfs_set_shared mem s p bytes = (NULL, s)"
    by (simp add: ntfs_set_shared_def)
qed

theorem C3_set_shared_witness:
  "registry_wf (s_shared_init[7 := \<lparr>ptr = 16, len = 2, cnt = 1\<rparr>]) \<and>
   (\<exists>k<length (s_shared_init[7 := \<lparr>ptr = 16, len = 2, cnt = 1\<rparr>]).
      slot_matches (\<lambda>a. [1, 2]) 32 2 (s_shared_init[7 := \<lparr>ptr = 16, len = 2, cnt = 1\<rparr>] ! k)) \<and>
   (\<exists>m<length (s_shared_init[7 := \<lparr>ptr = 16, len = 2, cnt = 1\<rparr>]).
      ntfs_set_shared (\<lambda>a. [1, 2]) (s_shared_init[7 := \<lparr>ptr = 16, len = 2, cnt = 1\<rparr>]) 32 2 =
        (ptr (s_shared_init[7 := \<lparr>ptr = 16, len = 2, cnt = 1\<rparr>] ! m),
         (s_shared_init[7 := \<lparr>ptr = 16, len = 2, cnt = 1\<rparr>])
           [m := (s_shared_init[7 := \<lparr>ptr = 16, len = 2, cnt = 1\<rparr>] ! m)
              \<lparr>cnt := cnt (s_shared_init[7 := \<lparr>ptr = 16, len = 2, cnt = 1\<rparr>] ! m) + 1\<rparr>])) \<and>
   registry_wf s_shared_init \<and>
   (\<exists>f<length s_shared_init.
      ntfs_set_shared (\<lambda>a. [1, 2]) s_shared_init 32 2 =
        (32, s_shared_init[f := \<lparr>ptr = 32, len = 2, cnt = 1\<rparr>])) \<and>
   registry_wf (replicate 8 \<lparr>ptr = 16, len = 1, cnt = 1\<rparr>) \<and>
   ntfs_set_shared (\<lambda>a. [1, 2]) (replicate 8 \<lparr>ptr = 16, len = 1, cnt = 1\<rparr>) 32 2 =
     (NULL, replicate 8 \<lparr>ptr = 16, len = 1, cnt = 1\<rparr>)"
proof -
  let ?mem = "\<lambda>a::addr. [1, 2 :: 8 word]"
  let ?a = "s_shared_init[7 := \<lparr>ptr = 16, len = 2, cnt = 1\<rparr>]"
  let ?c = "replicate 8 \<lparr>ptr = 16, len = 1, cnt = 1 :: 32 word\<rparr>"
  have wa: "registry_wf ?a"
    by (simp add: registry_wf_def list_all_length nth_list_update occupied_def NULL_def
        s_shared_init_def)
  have ma: "slot_matches ?mem 32 2 (?a ! 7)"
    by (simp add: slot_matches_def occupied_def s_shared_init_def)
  then have ea: "\<exists>k<length ?a. slot_matches ?mem 32 2 (?a ! k)"
    by (intro exI [of _ 7]) (simp add: s_shared_init_def)
  have wi: "registry_wf s_shared_init"
    by (simp add: registry_wf_def list_all_length occupied_def s_shared_init_def)
  have ni: "\<not> (\<exists>k<length s_shared_init. slot_matches ?mem 32 2 (s_shared_init ! k))"
    by (simp add: slot_matches_def occupied_def s_shared_init_def)
  have fi: "\<exists>k<length s_shared_init. \<not> occupied (s_shared_init ! k)"
    by (intro exI [of _ 0]) (simp add: occupied_def s_shared_init_def)
  have wc: "registry_wf ?c"
    by (simp add: registry_wf_def list_all_length occupied_def NULL_def)
  have nc: "\<not> (\<exists>k<length ?c. slot_matches ?mem 32 2 (?c ! k))"
    by (simp add: slot_matches_def)
  have oc: "\<not> (\<exists>k<length ?c. \<not> occupied (?c ! k))"
    by (simp add: occupied_def)
  from C3_set_shared [OF wa, of ?mem 32 2] ea
  have ra: "\<exists>m<length ?a. ntfs_set_shared ?mem ?a 32 2 =
      (ptr (?a ! m), ?a[m := (?a ! m)\<lparr>cnt := cnt (?a ! m) + 1\<rparr>])"
    by blast
  from C3_set_shared [OF wi, of ?mem 32 2] ni fi
  have ri: "\<exists>f<length s_shared_init. ntfs_set_shared ?mem s_shared_init 32 2 =
      (32, s_shared_init[f := \<lparr>ptr = 32, len = 2, cnt = 1\<rparr>])"
    by blast
  from C3_set_shared [OF wc, of ?mem 32 2] nc oc
  have rc: "ntfs_set_shared ?mem ?c 32 2 = (NULL, ?c)"
    by blast
  from wa ea ra wi ri wc rc show ?thesis by blast
qed

text \<open>
  Claim C4. From the empty registry, two acquisitions of buffers with the same bytes
  return the same stored pointer and leave its slot with count 2; of the two releases
  of that pointer the first returns \<open>NULL\<close> and the second returns the buffer.
\<close>

theorem C4_acquire_twice_release_twice:
  assumes "p1 \<noteq> NULL" and "take (unat n) (mem p1) = take (unat n) (mem p2)"
  shows "ntfs_set_shared mem s_shared_init p1 n =
           (p1, s_shared_init[7 := \<lparr>ptr = p1, len = n, cnt = 1\<rparr>]) \<and>
         ntfs_set_shared mem (s_shared_init[7 := \<lparr>ptr = p1, len = n, cnt = 1\<rparr>]) p2 n =
           (p1, s_shared_init[7 := \<lparr>ptr = p1, len = n, cnt = 2\<rparr>]) \<and>
         ntfs_put_shared (s_shared_init[7 := \<lparr>ptr = p1, len = n, cnt = 2\<rparr>]) p1 =
           (NULL, s_shared_init[7 := \<lparr>ptr = p1, len = n, cnt = 1\<rparr>]) \<and>
         ntfs_put_shared (s_shared_init[7 := \<lparr>ptr = p1, len = n, cnt = 1\<rparr>]) p1 =
           (p1, s_shared_init[7 := \<lparr>ptr = p1, len = n, cnt = 0\<rparr>])"
proof -
  from assms(2) have "memcmp_eq mem p1 p2 (unat n)"
    by (simp add: memcmp_eq_def)
  from set_scan_second [OF this] assms(1)
  have "ntfs_set_shared mem (s_shared_init[7 := \<lparr>ptr = p1, len = n, cnt = 1\<rparr>]) p2 n =
           (p1, s_shared_init[7 := \<lparr>ptr = p1, len = n, cnt = 2\<rparr>])"
    by (simp add: ntfs_set_shared_def)
  then show ?thesis
    by (simp add: set_shared_first put_first put_second)
qed

theorem C4_acquire_twice_release_twice_witness:
  "(16 :: addr) \<noteq> NULL \<and>
   ntfs_set_shared (\<lambda>a. [1, 2, 3]) s_shared_init 16 3 =
     (16, s_shared_init[7 := \<lparr>ptr = 16, len = 3, cnt = 1\<rparr>]) \<and>
   ntfs_set_shared (\<lambda>a. [1, 2, 3]) (s_shared_init[7 := \<lparr>ptr = 16, len = 3, cnt = 1\<rparr>]) 32 3 =
     (16, s_shared_init[7 := \<lparr>ptr = 16, len = 3, cnt = 2\<rparr>]) \<and>
   ntfs_put_shared (s_shared_init[7 := \<lparr>ptr = 16, len = 3, cnt = 2\<rparr>]) 16 =
     (NULL, s_shared_init[7 := \<lparr>ptr = 16, len = 3, cnt = 1\<rparr>]) \<and>
   ntfs_put_shared (s_shared_init[7 := \<lparr>ptr = 16, len = 3, cnt = 1\<rparr>]) 16 =
     (16, s_shared_init[7 := \<lparr>ptr = 16, len = 3, cnt = 0\<rparr>])"
proof -
  have h: "(16 :: addr) \<noteq> NULL" by (simp add: NULL_def)
  from h C4_acquire_twice_release_twice [OF h, of 3 "\<lambda>a. [1, 2, 3]" 32]
  show ?thesis by simp
qed

text \<open>
  Claim C10. \<open>ntfs_put_shared\<close> on a pointer that no occupied slot stores returns
  that pointer and leaves the array as it was, so \<open>put_ntfs\<close> frees a case table
  that was never shared.
\<close>

theorem C10_put_shared_absent:
  "list_all (\<lambda>sl. occupied sl \<longrightarrow> ptr sl \<noteq> p) s \<Longrightarrow> ntfs_put_shared s p = (p, s)"
  unfolding ntfs_put_shared_def by (rule put_scan_absent) (auto simp: list_all_length)

theorem C10_put_shared_absent_witness:
  "list_all (\<lambda>sl. occupied sl \<longrightarrow> ptr sl \<noteq> 32)
     (s_shared_init[7 := \<lparr>ptr = 16, len = 2, cnt = 1\<rparr>]) \<and>
   ntfs_put_shared (s_shared_init[7 := \<lparr>ptr = 16, len = 2, cnt = 1\<rparr>]) 32 =
     (32, s_shared_init[7 := \<lparr>ptr = 16, len = 2, cnt = 1\<rparr>])"
proof -
  have h: "list_all (\<lambda>sl. occupied sl \<longrightarrow> ptr sl \<noteq> 32)
     (s_shared_init[7 := \<lparr>ptr = 16, len = 2, cnt = 1\<rparr>])"
    by (simp add: list_all_length nth_list_update occupied_def s_shared_init_def)
  from h C10_put_shared_absent [OF h] show ?thesis by blast
qed

section \<open>Properties of the optional system files\<close>

text \<open>
  Claim C8. On a volume of the newer version (\<open>is_ntfs3\<close>): an error of
  \<open>ntfs_security_init\<close> is returned by the mount, and the root is not loaded; an
  error of \<open>ntfs_extend_init\<close>, \<open>ntfs_reparse_init\<close> or \<open>ntfs_objid_init\<close> is
  dropped, no later optional routine is called, the root is loaded next, and the mount
  returns what the load of the root returns: 0 when the root loads.
\<close>

theorem C8_optional_steps:
  assumes "is_ntfs3 env"
  shows "(ntfs_security_init env \<noteq> 0 \<longrightarrow>
            fill_super_tail env = ([Security_init], ntfs_security_init env)) \<and>
         (ntfs_security_init env = 0 \<and> ntfs_extend_init env \<noteq> 0 \<longrightarrow>
            fill_super_tail env =
              ([Security_init, Extend_init] @ fst (load_root env), snd (load_root env))) \<and>
         (ntfs_security_init env = 0 \<and> ntfs_extend_init env = 0 \<and>
          ntfs_reparse_init env \<noteq> 0 \<longrightarrow>
            fill_super_tail env =
              ([Security_init, Extend_init, Reparse_init] @ fst (load_root env),
               snd (load_root env))) \<and>
         (ntfs_security_init env = 0 \<and> ntfs_extend_init env = 0 \<and>
          ntfs_reparse_init env = 0 \<and> ntfs_objid_init env \<noteq> 0 \<longrightarrow>
            fill_super_tail env =
              ([Security_init, Extend_init, Reparse_init, Objid_init] @ fst (load_root env),
               snd (load_root env))) \<and>
         ((\<exists>inode. root_iget5 env = Inr inode) \<and> d_make_root env \<noteq> NULL \<longrightarrow>
            load_root env = ([Iget5_root, D_make_root], 0))"
  using assms by (auto simp: fill_super_tail_def after_calls_def load_root_def)


theorem C8_optional_steps_witness:
  "fill_super_tail (tail_env_sample (- 5) 0) = ([Security_init], - 5) \<and>
   fill_super_tail (tail_env_sample 0 (- 95)) =
     ([Security_init, Extend_init, Iget5_root, D_make_root], 0)"
proof -
  have h: "is_ntfs3 (tail_env_sample sec ext)" for sec ext
    by (simp add: tail_env_sample_def)
  have a: "ntfs_security_init (tail_env_sample (- 5) 0) \<noteq> 0"
    by (simp add: tail_env_sample_def)
  have b: "ntfs_security_init (tail_env_sample 0 (- 95)) = 0 \<and>
           ntfs_extend_init (tail_env_sample 0 (- 95)) \<noteq> 0"
    by (simp add: tail_env_sample_def)
  have c: "(\<exists>inode. root_iget5 (tail_env_sample 0 (- 95)) = Inr inode) \<and>
           d_make_root (tail_env_sample 0 (- 95)) \<noteq> NULL"
    by (simp add: tail_env_sample_def NULL_def)
  from C8_optional_steps [OF h, of "- 5" 0] a
  have ra: "fill_super_tail (tail_env_sample (- 5) 0) =
      ([Security_init], ntfs_security_init (tail_env_sample (- 5) 0))"
    by blast
  from C8_optional_steps [OF h, of 0 "- 95"] b c
  have rb: "fill_super_tail (tail_env_sample 0 (- 95)) =
      ([Security_init, Extend_init] @ fst (load_root (tail_env_sample 0 (- 95))),
       snd (load_root (tail_env_sample 0 (- 95)))) \<and>
      load_root (tail_env_sample 0 (- 95)) = ([Iget5_root, D_make_root], 0)"
    by blast
  from ra rb show ?thesis
    by (simp add: tail_env_sample_def)
qed

section \<open>Properties of the teardown\<close>

lemma put_ntfs_calls:
  "fst (put_ntfs s sbi a) =
     [Ntfs_free New_rec (new_rec sbi),
      Put_shared (upcase sbi), Ntfs_free Upcase (fst (ntfs_put_shared s (upcase sbi))),
      Ntfs_free Def_table (def_table sbi),
      Wnd_close Mft_bitmap, Wnd_close Used_bitmap]
     @ iput_if (mft_ni sbi) MFT
     @ iput_if (security_ni sbi) SECURITY
     @ iput_if (reparse_ni sbi) REPARSE
     @ iput_if (objid_ni sbi) OBJID
     @ iput_if (volume_ni sbi) VOLUME
     @ [Ntfs_update_mftmirr,
        Indx_clear Index_sii, Indx_clear Index_sdh, Indx_clear Index_r, Indx_clear Index_o,
        Ntfs_free Frame_unc (compress_frame_unc sbi),
        Ntfs_free Compress_ctx (compress_ctx sbi),
        Clear_mount_options,
        Ntfs_free Sbi a]"
  by (simp add: put_ntfs_def split: prod.splits)

lemma put_ntfs_iput: "Iput f \<in> set (fst (put_ntfs s sbi a)) \<longleftrightarrow> handle sbi f \<noteq> NULL"
  unfolding put_ntfs_calls by (cases f) (simp_all add: iput_if_def)

lemma put_ntfs_mirror_after:
  "handle sbi f \<noteq> NULL \<Longrightarrow> before (Iput f) Ntfs_update_mftmirr (fst (put_ntfs s sbi a))"
  unfolding put_ntfs_calls by (cases f) (simp_all add: iput_if_def)

lemma put_ntfs_mirror_not_before:
  "\<not> before Ntfs_update_mftmirr (Iput f) (fst (put_ntfs s sbi a))"
  unfolding put_ntfs_calls by (simp add: iput_if_def)

lemma put_ntfs_handles:
  "iput_if (mft_ni sbi) MFT @ iput_if (security_ni sbi) SECURITY @
   iput_if (reparse_ni sbi) REPARSE @ iput_if (objid_ni sbi) OBJID @
   iput_if (volume_ni sbi) VOLUME =
     map Iput (filter (\<lambda>f. handle sbi f \<noteq> NULL) sysfiles)"
  by (simp add: iput_if_def sysfiles_def)

text \<open>
  Claim C9, as the code has it. \<open>put_ntfs\<close> makes exactly these calls, in this order:
  it frees the record template, releases the shared case table and frees what the
  registry gives back, frees the attribute definitions, closes the bitmap of the MFT and
  then the bitmap of the clusters, releases the handles of the loaded system files in
  the order MFT, security, reparse, object-ID, volume information, and only then writes
  back the MFT mirror, before it clears the indexes and frees the rest. Every handle that
  is released, the one of the MFT file too, is released before the mirror is written,
  and none after. The registry is left as \<open>ntfs_put_shared\<close> leaves it.
\<close>

theorem C9_put_ntfs_order:
  "fst (put_ntfs s sbi a) =
     [Ntfs_free New_rec (new_rec sbi),
      Put_shared (upcase sbi), Ntfs_free Upcase (fst (ntfs_put_shared s (upcase sbi))),
      Ntfs_free Def_table (def_table sbi),
      Wnd_close Mft_bitmap, Wnd_close Used_bitmap]
     @ map Iput (filter (\<lambda>f. handle sbi f \<noteq> NULL) sysfiles)
     @ [Ntfs_update_mftmirr,
        Indx_clear Index_sii, Indx_clear Index_sdh, Indx_clear Index_r, Indx_clear Index_o,
        Ntfs_free Frame_unc (compress_frame_unc sbi),
        Ntfs_free Compress_ctx (compress_ctx sbi),
        Clear_mount_options,
        Ntfs_free Sbi a] \<and>
   snd (put_ntfs s sbi a) = snd (ntfs_put_shared s (upcase sbi)) \<and>
   (\<forall>f. handle sbi f \<noteq> NULL \<longrightarrow>
        before (Iput f) Ntfs_update_mftmirr (fst (put_ntfs s sbi a))) \<and>
   (\<forall>f. \<not> before Ntfs_update_mftmirr (Iput f) (fst (put_ntfs s sbi a)))"
proof -
  have calls: "fst (put_ntfs s sbi a) =
     [Ntfs_free New_rec (new_rec sbi),
      Put_shared (upcase sbi), Ntfs_free Upcase (fst (ntfs_put_shared s (upcase sbi))),
      Ntfs_free Def_table (def_table sbi),
      Wnd_close Mft_bitmap, Wnd_close Used_bitmap]
     @ map Iput (filter (\<lambda>f. handle sbi f \<noteq> NULL) sysfiles)
     @ [Ntfs_update_mftmirr,
        Indx_clear Index_sii, Indx_clear Index_sdh, Indx_clear Index_r, Indx_clear Index_o,
        Ntfs_free Frame_unc (compress_frame_unc sbi),
        Ntfs_free Compress_ctx (compress_ctx sbi),
        Clear_mount_options,
        Ntfs_free Sbi a]"
    unfolding put_ntfs_calls put_ntfs_handles [symmetric] by simp
  have reg: "snd (put_ntfs s sbi a) = snd (ntfs_put_shared s (upcase sbi))"
    by (simp add: put_ntfs_def split: prod.splits)
  from calls reg put_ntfs_mirror_after put_ntfs_mirror_not_before show ?thesis
    by blast
qed

theorem C9_put_ntfs_order_witness:
  "fst (put_ntfs s_shared_init sbi_sample 128) =
     [Ntfs_free New_rec 16, Put_shared 32, Ntfs_free Upcase 32, Ntfs_free Def_table 48,
      Wnd_close Mft_bitmap, Wnd_close Used_bitmap, Iput MFT, Iput VOLUME,
      Ntfs_update_mftmirr,
      Indx_clear Index_sii, Indx_clear Index_sdh, Indx_clear Index_r, Indx_clear Index_o,
      Ntfs_free Frame_unc 96, Ntfs_free Compress_ctx 112, Clear_mount_options,
      Ntfs_free Sbi 128] \<and>
   before (Iput MFT) Ntfs_update_mftmirr (fst (put_ntfs s_shared_init sbi_sample 128))"
proof -
  have h: "handle sbi_sample MFT \<noteq> NULL"
    by (simp add: sbi_sample_def NULL_def)
  have ps: "fst (ntfs_put_shared s_shared_init (upcase sbi_sample)) = 32"
    by (simp add: ntfs_put_shared_def put_scan_absent occupied_def s_shared_init_def
        sbi_sample_def)
  note t = C9_put_ntfs_order [of s_shared_init sbi_sample 128]
  from t have calls: "fst (put_ntfs s_shared_init sbi_sample 128) =
     [Ntfs_free New_rec (new_rec sbi_sample),
      Put_shared (upcase sbi_sample),
      Ntfs_free Upcase (fst (ntfs_put_shared s_shared_init (upcase sbi_sample))),
      Ntfs_free Def_table (def_table sbi_sample),
      Wnd_close Mft_bitmap, Wnd_close Used_bitmap]
     @ map Iput (filter (\<lambda>f. handle sbi_sample f \<noteq> NULL) sysfiles)
     @ [Ntfs_update_mftmirr,
        Indx_clear Index_sii, Indx_clear Index_sdh, Indx_clear Index_r, Indx_clear Index_o,
        Ntfs_free Frame_unc (compress_frame_unc sbi_sample),
        Ntfs_free Compress_ctx (compress_ctx sbi_sample),
        Clear_mount_options,
        Ntfs_free Sbi 128]"
    by blast
  from t h have b: "before (Iput MFT) Ntfs_update_mftmirr
      (fst (put_ntfs s_shared_init sbi_sample 128))"
    by blast
  have "fst (put_ntfs s_shared_init sbi_sample 128) =
     [Ntfs_free New_rec 16, Put_shared 32, Ntfs_free Upcase 32, Ntfs_free Def_table 48,
      Wnd_close Mft_bitmap, Wnd_close Used_bitmap, Iput MFT, Iput VOLUME,
      Ntfs_update_mftmirr,
      Indx_clear Index_sii, Indx_clear Index_sdh, Indx_clear Index_r, Indx_clear Index_o,
      Ntfs_free Frame_unc 96, Ntfs_free Compress_ctx 112, Clear_mount_options,
      Ntfs_free Sbi 128]"
    unfolding calls ps by (simp add: sbi_sample_def sysfiles_def NULL_def)
  from this b show ?thesis by (rule conjI)
qed

text \<open>
  Claim C9 as stated fails: with the MFT file loaded, the write-back of the mirror is
  not followed by the release of the handle of the MFT file; it comes after it.
\<close>

theorem C9_mirror_before_mft_counterexample:
  "\<not> before Ntfs_update_mftmirr (Iput MFT) (fst (put_ntfs s_shared_init sbi_sample 128)) \<and>
   before (Iput MFT) Ntfs_update_mftmirr (fst (put_ntfs s_shared_init sbi_sample 128))"
  by (simp add: put_ntfs_calls iput_if_def sbi_sample_def NULL_def)

section \<open>Properties of the boot sector parser\<close>

lemma nat_and_pred_zero:
  fixes n :: nat
  shows "0 < n \<Longrightarrow> n AND (n - 1) = 0 \<Longrightarrow> \<exists>k. n = 2 ^ k"
proof (induction n rule: less_induct)
  case (less n)
  have rec: "n AND (n - 1) = of_bool (odd n \<and> odd (n - 1)) + 2 * ((n div 2) AND ((n - 1) div 2))"
    by (rule and_rec)
  show ?case
  proof (cases "even n")
    case True
    then obtain m where m: "n = 2 * m" by (elim evenE)
    with less.prems have mpos: "0 < m" by simp
    have "(n - 1) div 2 = m - 1" using m mpos by auto
    with rec True m less.prems(2) have "m AND (m - 1) = 0" by simp
    moreover have "m < n" using m mpos by simp
    ultimately obtain k where "m = 2 ^ k" using less.IH mpos by blast
    with m have "n = 2 ^ Suc k" by simp
    then show ?thesis by blast
  next
    case False
    then obtain m where m: "n = 2 * m + 1" by (elim oddE)
    have "(n - 1) div 2 = m" "n div 2 = m" using m by auto
    with rec less.prems(2) have "m = 0" by simp
    with m have "n = 2 ^ 0" by simp
    then show ?thesis by blast
  qed
qed

lemma is_power_of2_unat:
  assumes "is_power_of2 w"
  shows "power_of_two (unat w)"
proof -
  from assms have nz: "w \<noteq> 0" and z: "w AND (w - 1) = 0"
    by (simp_all add: is_power_of2_def)
  have "unat (w AND (w - 1)) = unat w AND unat (w - 1)"
    by (simp add: unsigned_and_eq)
  moreover have "unat (w - 1) = unat w - 1"
    using nz by (simp add: unat_minus_one)
  ultimately have "unat w AND (unat w - 1) = 0" using z by simp
  moreover have "0 < unat w" using nz by (simp add: unat_gt_0)
  ultimately show ?thesis
    unfolding power_of_two_def by (intro nat_and_pred_zero)
qed

lemma is_power_of2_ucast32:
  fixes w :: "32 word"
  assumes "is_power_of2 (ucast w)"
  shows "power_of_two (unat w)"
proof -
  have "unat w < 2 ^ 32" using unsigned_less [of w] by simp
  then have lt: "unat w < 2 ^ 64" by simp
  have "unat (ucast w :: 64 word) = take_bit 64 (unat w)"
    by (simp add: unsigned_ucast_eq)
  also have "\<dots> = unat w" using lt by (simp add: take_bit_nat_eq_self)
  finally have "unat (ucast w :: 64 word) = unat w" .
  with is_power_of2_unat [OF assms] show ?thesis by simp
qed

lemma init_from_boot_Some:
  "ntfs_init_from_boot h (Some boot) alloc_ok sb sector_size dev_size =
     (if \<not> boot_accepted h boot then Inl (- EINVAL)
      else if \<not> alloc_ok then Inl (- ENOMEM)
      else
        let raw = (padded_dev_size boot sector_size dev_size < boot_fs_size boot);
            sb1 = (if raw then sb\<lparr>s_flags := s_flags sb OR SB_RDONLY\<rparr> else sb);
            sb2 = (if boot_cluster_size boot < PAGE_SIZE
                   then sb_set_blocksize sector_size sb1 (boot_cluster_size boot)
                   else sb1)
        in Inr (mk_sb_info h boot sb2, sb2,
                (if boot_sector_size boot \<noteq> sector_size then [Warn_sector_size_differs] else []) @
                (if raw then [Warn_raw_volume] else [])))"
  by (auto simp add: ntfs_init_from_boot_def boot_accepted_def Let_def not_less)

lemma pow2_mult_mod:
  assumes "power_of_two x" and "power_of_two y"
  shows "(x * y) mod 2 ^ 32 = 0 \<or> power_of_two ((x * y) mod 2 ^ 32)"
proof -
  from assms obtain m k where x: "x = 2 ^ m" and y: "y = 2 ^ k"
    by (auto simp: power_of_two_def)
  then have xy: "x * y = 2 ^ (m + k)" by (simp add: power_add)
  show ?thesis
  proof (cases "m + k < 32")
    case True
    then have "(2::nat) ^ (m + k) < 2 ^ 32" by (intro power_strict_increasing) simp_all
    with xy have "(x * y) mod 2 ^ 32 = 2 ^ (m + k)" by simp
    then show ?thesis by (auto simp: power_of_two_def)
  next
    case False
    then have "(2::nat) ^ 32 dvd 2 ^ (m + k)" by (intro le_imp_power_dvd) simp
    with xy have "(2::nat) ^ 32 dvd x * y" by (simp only:)
    then have "(x * y) mod 2 ^ 32 = 0" by (rule dvd_imp_mod_0)
    then show ?thesis by (rule disjI1)
  qed
qed

lemma accepted_sizes:
  assumes "boot_accepted h boot"
  shows "power_of_two (unat (boot_sector_size boot)) \<and>
         power_of_two (unat (boot_cluster_size boot)) \<and>
         boot_sector_size boot \<le> boot_cluster_size boot"
proof -
  from assms have ps: "power_of_two (unat (boot_sector_size boot))"
    and pc: "power_of_two (unat (true_sectors_per_clst boot))"
    and le: "boot_sector_size boot \<le> boot_cluster_size boot"
    and big: "SECTOR_SIZE \<le> boot_sector_size boot"
    by (simp_all add: boot_accepted_def is_power_of2_ucast32)
  have "unat (boot_cluster_size boot) =
      (unat (boot_sector_size boot) * unat (true_sectors_per_clst boot)) mod 2 ^ 32"
    by (simp add: boot_cluster_size_def unat_word_ariths)
  with pow2_mult_mod [OF ps pc]
  have "unat (boot_cluster_size boot) = 0 \<or> power_of_two (unat (boot_cluster_size boot))"
    by simp
  moreover have "boot_cluster_size boot \<noteq> 0"
  proof
    assume "boot_cluster_size boot = 0"
    with le have "boot_sector_size boot = 0" by simp
    with big show False by (simp add: SECTOR_SIZE_def)
  qed
  ultimately have "power_of_two (unat (boot_cluster_size boot))"
    by (simp add: unat_eq_0)
  with ps le show ?thesis by simp
qed

lemma sample_accepted: "boot_accepted ntfs_h_sample boot_sample"
  by (simp add: boot_accepted_def boot_sample_def ntfs_h_sample_def NTFS_SYSTEM_ID_def
      SECTOR_SIZE_def boot_sector_size_def is_power_of2_def true_sectors_per_clst_def
      size_field_bad_def shl32_def boot_cluster_size_def boot_record_size_def
      boot_clusters_def boot_volume_size_def boot_sector_bits_def boot_cluster_bits_def
      blksize_bits_def blksize_loop.simps)

lemma sample_sizes:
  "boot_sector_size boot_sample = 512" "boot_cluster_size boot_sample = 4096"
  "boot_fs_size boot_sample = 0x100200"
  by (simp_all add: boot_sample_def boot_sector_size_def boot_cluster_size_def
      true_sectors_per_clst_def boot_fs_size_def boot_sector_bits_def blksize_bits_def
      blksize_loop.simps)

text \<open>
  Claim C2. When \<open>ntfs_init_from_boot\<close> succeeds, the sector size and the cluster size
  it stores are powers of two and the cluster size is not below the sector size; a boot
  sector whose derived sector size or cluster size is not a power of two, or whose
  cluster size is below its sector size, is refused with \<open>-EINVAL\<close>.
\<close>

theorem C2_sizes:
  "(ntfs_init_from_boot h bread alloc_ok sb sector_size dev_size = Inr (sbi, sb', w) \<longrightarrow>
      power_of_two (unat (sbi_sector_size sbi)) \<and>
      power_of_two (unat (sbi_cluster_size sbi)) \<and>
      sbi_sector_size sbi \<le> sbi_cluster_size sbi) \<and>
   (\<not> power_of_two (unat (boot_sector_size boot)) \<or>
    \<not> power_of_two (unat (boot_cluster_size boot)) \<or>
    boot_cluster_size boot < boot_sector_size boot \<longrightarrow>
      ntfs_init_from_boot h (Some boot) alloc_ok sb sector_size dev_size = Inl (- EINVAL))"
proof -
  have accept: "power_of_two (unat (sbi_sector_size sbi)) \<and>
      power_of_two (unat (sbi_cluster_size sbi)) \<and>
      sbi_sector_size sbi \<le> sbi_cluster_size sbi"
    if r: "ntfs_init_from_boot h bread alloc_ok sb sector_size dev_size = Inr (sbi, sb', w)"
  proof -
    from r obtain b where b: "bread = Some b"
      by (cases bread) (simp_all add: ntfs_init_from_boot_def)
    from r have acc: "boot_accepted h b"
      unfolding b init_from_boot_Some by (simp split: if_splits)
    from r acc have "sbi = mk_sb_info h b sb'"
      unfolding b init_from_boot_Some by (auto simp: Let_def split: if_splits)
    then have "sbi_sector_size sbi = boot_sector_size b"
      and "sbi_cluster_size sbi = boot_cluster_size b"
      by (simp_all add: mk_sb_info_def)
    with accepted_sizes [OF acc] show ?thesis by simp
  qed
  have refuse: "ntfs_init_from_boot h (Some boot) alloc_ok sb sector_size dev_size = Inl (- EINVAL)"
    if v: "\<not> power_of_two (unat (boot_sector_size boot)) \<or>
      \<not> power_of_two (unat (boot_cluster_size boot)) \<or>
      boot_cluster_size boot < boot_sector_size boot"
  proof -
    have "\<not> boot_accepted h boot"
    proof
      assume "boot_accepted h boot"
      from accepted_sizes [OF this] v show False by auto
    qed
    then show ?thesis by (simp add: init_from_boot_Some)
  qed
  from accept refuse show ?thesis by blast
qed

lemma sample_run:
  "ntfs_init_from_boot ntfs_h_sample (Some boot_sample) True sb_sample 512 0x100200 =
     Inr (mk_sb_info ntfs_h_sample boot_sample sb_sample, sb_sample, [])"
  by (simp add: init_from_boot_Some sample_accepted padded_dev_size_def sample_sizes
      PAGE_SIZE_def)

lemma sample_wrapped:
  "boot_cluster_size (boot_sample\<lparr>sectors_per_clusters := 0xE9\<rparr>)
     < boot_sector_size (boot_sample\<lparr>sectors_per_clusters := 0xE9\<rparr>)"
  by (simp add: boot_sample_def boot_sector_size_def boot_cluster_size_def
      true_sectors_per_clst_def shl32_def)

theorem C2_sizes_witness:
  "power_of_two (unat (sbi_sector_size (mk_sb_info ntfs_h_sample boot_sample sb_sample))) \<and>
   power_of_two (unat (sbi_cluster_size (mk_sb_info ntfs_h_sample boot_sample sb_sample))) \<and>
   sbi_sector_size (mk_sb_info ntfs_h_sample boot_sample sb_sample)
     \<le> sbi_cluster_size (mk_sb_info ntfs_h_sample boot_sample sb_sample) \<and>
   ntfs_init_from_boot ntfs_h_sample (Some (boot_sample\<lparr>sectors_per_clusters := 0xE9\<rparr>))
     True sb_sample 512 0x100200 = Inl (- EINVAL)"
proof -
  from C2_sizes [of ntfs_h_sample "Some boot_sample" True sb_sample 512 "0x100200"
      "mk_sb_info ntfs_h_sample boot_sample sb_sample" sb_sample "[]"
      "boot_sample\<lparr>sectors_per_clusters := 0xE9\<rparr>"]
    sample_run sample_wrapped
  show ?thesis by blast
qed

lemma sint8_cases:
  fixes b :: "8 word"
  shows "sint b = (if uint b < 128 then uint b else uint b - 256)"
proof -
  have u: "0 \<le> uint b" "uint b < 256"
    using uint_lt2p [of b] by simp_all
  have s: "sint b = (uint b + 128) mod 256 - 128"
    by (simp add: sint_uint signed_take_bit_eq_take_bit_shift take_bit_eq_mod)
  show ?thesis
  proof (cases "uint b < 128")
    case True
    with u have "(uint b + 128) mod 256 = uint b + 128" by simp
    with s True show ?thesis by simp
  next
    case False
    with u have "(uint b + 128) mod 256 = uint b + 128 - 256"
      by (simp add: mod_pos_geq)
    with s False show ?thesis by simp
  qed
qed

lemma unat_two_power:
  assumes "m < 32"
  shows "unat ((2 :: 32 word) ^ m) = 2 ^ m"
proof -
  from assms have "(2::nat) ^ m < 2 ^ 32" by (intro power_strict_increasing) simp_all
  then have "take_bit 32 ((2::nat) ^ m) = 2 ^ m" by (rule take_bit_nat_eq_self)
  moreover have "unat (of_nat (2 ^ m) :: 32 word) = take_bit 32 ((2::nat) ^ m)"
    by (simp only: unsigned_of_nat len_bit0 len_num1 mult_2 one_add_one numeral_Bit0 [symmetric])
      simp
  moreover have "(of_nat (2 ^ m) :: 32 word) = 2 ^ m" by simp
  ultimately show ?thesis by simp
qed

lemma shl32_one:
  assumes "0 \<le> n" "n < 32"
  shows "unat (shl32 1 n) = 2 ^ nat n"
proof -
  from assms have m: "n mod 32 = n" by simp
  from assms have lt: "nat n < 32" by simp
  from unat_two_power [OF lt] show ?thesis
    by (simp add: shl32_def m)
qed

lemma spc_literal:
  "sectors_per_clusters boot \<le> 0x80 \<Longrightarrow>
   unat (true_sectors_per_clst boot) = unat (sectors_per_clusters boot)"
proof -
  have "unat (sectors_per_clusters boot) < 2 ^ 8"
    using unsigned_less [of "sectors_per_clusters boot"] by simp
  then have lt: "unat (sectors_per_clusters boot) < 2 ^ 32" by simp
  have "unat (ucast (sectors_per_clusters boot) :: 32 word) =
      take_bit 32 (unat (sectors_per_clusters boot))"
    by (simp add: unsigned_ucast_eq)
  also have "\<dots> = unat (sectors_per_clusters boot)"
    using lt by (simp add: take_bit_nat_eq_self)
  finally show "sectors_per_clusters boot \<le> 0x80 \<Longrightarrow>
   unat (true_sectors_per_clst boot) = unat (sectors_per_clusters boot)"
    by (simp add: true_sectors_per_clst_def)
qed

lemma spc_positive:
  assumes "0 < sint (sectors_per_clusters boot)"
  shows "unat (true_sectors_per_clst boot) = nat (sint (sectors_per_clusters boot))"
proof -
  let ?b = "sectors_per_clusters boot"
  have ub: "uint ?b < 256" using uint_lt2p [of ?b] by simp
  from assms ub have small: "uint ?b < 128" and eq: "sint ?b = uint ?b"
    by (simp_all add: sint8_cases split: if_splits)
  have "?b \<le> 0x80" using small by (simp add: word_le_def)
  from spc_literal [OF this] have "unat (true_sectors_per_clst boot) = unat ?b" .
  moreover have "nat (sint ?b) = unat ?b" by (simp only: eq nat_uint_eq)
  ultimately show ?thesis by (simp only:)
qed

lemma spc_exponent:
  assumes "- 32 < sint (sectors_per_clusters boot)" "sint (sectors_per_clusters boot) < 0"
  shows "unat (true_sectors_per_clst boot) = 2 ^ nat (- sint (sectors_per_clusters boot))"
proof -
  let ?b = "sectors_per_clusters boot"
  from assms have eq: "sint ?b = uint ?b - 256" and big: "224 < uint ?b"
    by (simp_all add: sint8_cases split: if_splits)
  have ub: "uint ?b < 256" using uint_lt2p [of ?b] by simp
  have gt: "\<not> ?b \<le> 0x80" using big by (simp add: word_le_def)
  have "(0 - uint ?b) mod 32 = 256 - uint ?b"
  proof -
    have "(256 - uint ?b) mod 32 = (- uint ?b + 32 * 8) mod 32" by simp
    also have "\<dots> = (- uint ?b) mod 32" by (rule mod_mult_self2)
    finally have "(0 - uint ?b) mod 32 = (256 - uint ?b) mod 32" by simp
    also have "\<dots> = 256 - uint ?b" using big ub by simp
    finally show ?thesis .
  qed
  then have "shl32 1 (0 - uint ?b) = shl32 1 (256 - uint ?b)"
    by (simp add: shl32_def)
  moreover have "unat (shl32 1 (256 - uint ?b)) = 2 ^ nat (256 - uint ?b)"
    using big ub by (intro shl32_one) simp_all
  ultimately show ?thesis
    using gt eq by (simp add: true_sectors_per_clst_def)
qed



text \<open>
  Claim C5, as the code has it. \<open>true_sectors_per_clst\<close> compares the byte unsigned with
  \<open>0x80\<close>: a byte whose signed value \<open>v\<close> is positive is the count itself, a byte with
  \<open>v\<close> from -31 to -1 is the count \<open>2 ^ (- v)\<close>, the byte 0 is the count 0 and the byte
  \<open>0x80\<close> is the count 128; \<open>ntfs_init_from_boot\<close> succeeds only when the count is a
  power of two.
\<close>

theorem C5_sectors_per_cluster:
  "(0 < sint (sectors_per_clusters boot) \<longrightarrow>
      unat (true_sectors_per_clst boot) = signed_byte_rule (sectors_per_clusters boot)) \<and>
   (- 32 < sint (sectors_per_clusters boot) \<and> sint (sectors_per_clusters boot) < 0 \<longrightarrow>
      unat (true_sectors_per_clst boot) = signed_byte_rule (sectors_per_clusters boot)) \<and>
   (sectors_per_clusters boot = 0 \<longrightarrow> true_sectors_per_clst boot = 0) \<and>
   (sectors_per_clusters boot = 0x80 \<longrightarrow> true_sectors_per_clst boot = 128) \<and>
   (ntfs_init_from_boot h (Some boot) alloc_ok sb sector_size dev_size = Inr r \<longrightarrow>
      power_of_two (unat (true_sectors_per_clst boot)))"
proof -
  have a: "unat (true_sectors_per_clst boot) = signed_byte_rule (sectors_per_clusters boot)"
    if "0 < sint (sectors_per_clusters boot)"
    using that spc_positive [OF that] by (simp add: signed_byte_rule_def)
  have b: "unat (true_sectors_per_clst boot) = signed_byte_rule (sectors_per_clusters boot)"
    if "- 32 < sint (sectors_per_clusters boot) \<and> sint (sectors_per_clusters boot) < 0"
    using that spc_exponent [of boot] by (simp add: signed_byte_rule_def)
  have c: "true_sectors_per_clst boot = 0" if "sectors_per_clusters boot = 0"
    using that by (simp add: true_sectors_per_clst_def)
  have d: "true_sectors_per_clst boot = 128" if "sectors_per_clusters boot = 0x80"
    using that by (simp add: true_sectors_per_clst_def)
  have e: "power_of_two (unat (true_sectors_per_clst boot))"
    if "ntfs_init_from_boot h (Some boot) alloc_ok sb sector_size dev_size = Inr r"
  proof -
    from that have "boot_accepted h boot"
      unfolding init_from_boot_Some by (simp split: if_splits)
    then show ?thesis
      by (simp add: boot_accepted_def is_power_of2_ucast32)
  qed
  from a b c d e show ?thesis by blast
qed

lemma sample_spc:
  "sectors_per_clusters boot_sample = 8"
  "sectors_per_clusters (boot_sample\<lparr>sectors_per_clusters := 0xF4\<rparr>) = 0xF4"
  by (simp_all add: boot_sample_def)

theorem C5_sectors_per_cluster_witness:
  "unat (true_sectors_per_clst boot_sample) = signed_byte_rule 8 \<and>
   unat (true_sectors_per_clst (boot_sample\<lparr>sectors_per_clusters := 0xF4\<rparr>)) =
     signed_byte_rule 0xF4 \<and>
   signed_byte_rule 0xF4 = 4096 \<and>
   power_of_two (unat (true_sectors_per_clst boot_sample))"
proof -
  have p: "0 < sint (sectors_per_clusters boot_sample)"
    by (simp add: sample_spc)
  have n: "- 32 < sint (sectors_per_clusters (boot_sample\<lparr>sectors_per_clusters := 0xF4\<rparr>)) \<and>
           sint (sectors_per_clusters (boot_sample\<lparr>sectors_per_clusters := 0xF4\<rparr>)) < 0"
    by (simp add: sample_spc)
  have v: "signed_byte_rule 0xF4 = 4096"
    by (simp add: signed_byte_rule_def)
  from C5_sectors_per_cluster [of boot_sample ntfs_h_sample True sb_sample 512 "0x100200"
      "(mk_sb_info ntfs_h_sample boot_sample sb_sample, sb_sample, [])"] p sample_run
  have r1: "unat (true_sectors_per_clst boot_sample) =
      signed_byte_rule (sectors_per_clusters boot_sample) \<and>
      power_of_two (unat (true_sectors_per_clst boot_sample))"
    by blast
  from C5_sectors_per_cluster [of "boot_sample\<lparr>sectors_per_clusters := 0xF4\<rparr>"] n
  have r2: "unat (true_sectors_per_clst (boot_sample\<lparr>sectors_per_clusters := 0xF4\<rparr>)) =
      signed_byte_rule (sectors_per_clusters (boot_sample\<lparr>sectors_per_clusters := 0xF4\<rparr>))"
    by blast
  note r1' = r1 [unfolded sample_spc]
  note r2' = r2 [unfolded sample_spc]
  from r1' r2' v show ?thesis by blast
qed

text \<open>
  Claim C5 as stated fails at the byte 0: its signed value is not positive, so the rule
  of the claim gives the count \<open>2 ^ 0 = 1\<close>, while the code decodes the count 0 and
  refuses the boot sector. It fails at the byte \<open>0x80\<close> too: the signed value is -128,
  the code decodes the count 128.
\<close>

theorem C5_signed_byte_rule_counterexample:
  "sint (sectors_per_clusters (boot_sample\<lparr>sectors_per_clusters := 0\<rparr>)) \<le> 0 \<and>
   signed_byte_rule (sectors_per_clusters (boot_sample\<lparr>sectors_per_clusters := 0\<rparr>)) = 1 \<and>
   unat (true_sectors_per_clst (boot_sample\<lparr>sectors_per_clusters := 0\<rparr>)) = 0 \<and>
   ntfs_init_from_boot ntfs_h_sample (Some (boot_sample\<lparr>sectors_per_clusters := 0\<rparr>))
     True sb_sample 512 0x100200 = Inl (- EINVAL) \<and>
   sint (sectors_per_clusters (boot_sample\<lparr>sectors_per_clusters := 0x80\<rparr>)) = - 128 \<and>
   unat (true_sectors_per_clst (boot_sample\<lparr>sectors_per_clusters := 0x80\<rparr>)) = 128"
proof -
  have z: "true_sectors_per_clst (boot_sample\<lparr>sectors_per_clusters := 0\<rparr>) = 0"
    by (simp add: true_sectors_per_clst_def)
  have "\<not> is_power_of2 (ucast (true_sectors_per_clst (boot_sample\<lparr>sectors_per_clusters := 0\<rparr>)))"
    unfolding z by (simp add: is_power_of2_def)
  then have "\<not> boot_accepted ntfs_h_sample (boot_sample\<lparr>sectors_per_clusters := 0\<rparr>)"
    unfolding boot_accepted_def by blast
  then have r: "ntfs_init_from_boot ntfs_h_sample (Some (boot_sample\<lparr>sectors_per_clusters := 0\<rparr>))
     True sb_sample 512 0x100200 = Inl (- EINVAL)"
    by (simp add: init_from_boot_Some)
  have o: "unat (true_sectors_per_clst (boot_sample\<lparr>sectors_per_clusters := 0x80\<rparr>)) = 128"
    by (simp add: true_sectors_per_clst_def)
  from z r o show ?thesis
    by (simp add: signed_byte_rule_def)
qed


lemma sb_set_blocksize_flags:
  "sb_set_blocksize lbs (sb\<lparr>s_flags := f\<rparr>) sz = (sb_set_blocksize lbs sb sz)\<lparr>s_flags := f\<rparr>"
  "s_flags (sb_set_blocksize lbs sb sz) = s_flags sb"
  by (simp_all add: sb_set_blocksize_def)

lemma mk_sb_info_flags: "mk_sb_info h boot (sb\<lparr>s_flags := f\<rparr>) = mk_sb_info h boot sb"
  by (simp add: mk_sb_info_def)

lemma sb_rdonly_set: "sb_rdonly (f OR SB_RDONLY)"
proof -
  have "bit ((f OR SB_RDONLY) AND SB_RDONLY) 0"
    by (simp add: SB_RDONLY_def bit_and_iff bit_or_iff)
  then show ?thesis by (auto simp: sb_rdonly_def)
qed

text \<open>
  Claim C6, as the code has it. The size compared with the declared size of the
  filesystem is the device size after \<open>sector_size - 1\<close> is added to it when the sector
  size of the device differs from that of the boot sector. For a boot sector that the
  parser accepts on a device that is large enough: on a device whose size, so padded, is
  below the declared size, the parser succeeds too, with the same fields of \<open>sbi\<close>, the
  read-only flag set in the superblock and the warning of a RAW volume added.
\<close>

theorem C6_raw_volume:
  assumes ok: "ntfs_init_from_boot h (Some boot) alloc_ok sb sector_size dev_ok = Inr (sbi, sb', w)"
    and adequate: "boot_fs_size boot \<le> padded_dev_size boot sector_size dev_ok"
    and small: "padded_dev_size boot sector_size dev_small < boot_fs_size boot"
  shows "ntfs_init_from_boot h (Some boot) alloc_ok sb sector_size dev_small =
           Inr (sbi, sb'\<lparr>s_flags := s_flags sb OR SB_RDONLY\<rparr>, w @ [Warn_raw_volume]) \<and>
         s_flags sb' = s_flags sb \<and> sb_rdonly (s_flags sb OR SB_RDONLY) \<and>
         Warn_raw_volume \<notin> set w"
proof -
  from ok have acc: "boot_accepted h boot" and al: alloc_ok
    unfolding init_from_boot_Some by (simp_all split: if_splits)
  from adequate have nraw: "\<not> padded_dev_size boot sector_size dev_ok < boot_fs_size boot"
    by (simp add: not_less)
  let ?sb2 = "if boot_cluster_size boot < PAGE_SIZE
              then sb_set_blocksize sector_size sb (boot_cluster_size boot) else sb"
  let ?w = "if boot_sector_size boot \<noteq> sector_size then [Warn_sector_size_differs] else []"
  from ok acc al nraw have sbi: "sbi = mk_sb_info h boot ?sb2" and sb': "sb' = ?sb2" and w: "w = ?w"
    unfolding init_from_boot_Some by (auto simp: Let_def split: if_splits)
  have "ntfs_init_from_boot h (Some boot) alloc_ok sb sector_size dev_small =
      Inr (mk_sb_info h boot ?sb2, ?sb2\<lparr>s_flags := s_flags sb OR SB_RDONLY\<rparr>,
           ?w @ [Warn_raw_volume])"
    unfolding init_from_boot_Some using acc al small
    by (simp add: Let_def sb_set_blocksize_flags mk_sb_info_flags)
  moreover have "s_flags ?sb2 = s_flags sb"
    by (simp add: sb_set_blocksize_flags)
  moreover have "Warn_raw_volume \<notin> set ?w" by simp
  ultimately show ?thesis
    unfolding sbi sb' w using sb_rdonly_set by simp
qed

theorem C6_raw_volume_witness:
  "ntfs_init_from_boot ntfs_h_sample (Some boot_sample) True sb_sample 512 0x100000 =
     Inr (mk_sb_info ntfs_h_sample boot_sample sb_sample,
          sb_sample\<lparr>s_flags := s_flags sb_sample OR SB_RDONLY\<rparr>, [] @ [Warn_raw_volume])"
proof -
  have a: "boot_fs_size boot_sample \<le> padded_dev_size boot_sample 512 0x100200"
    by (simp add: padded_dev_size_def sample_sizes)
  have s: "padded_dev_size boot_sample 512 0x100000 < boot_fs_size boot_sample"
    by (simp add: padded_dev_size_def sample_sizes)
  from C6_raw_volume [OF sample_run a s] show ?thesis by blast
qed

text \<open>
  Claim C6 as stated fails where the sector sizes differ: a volume of 512-byte sectors
  that declares 0x100200 bytes, on a device of 4096-byte sectors that has 0x100000 bytes.
  The declared size exceeds the size of the device, and the parser succeeds without
  setting the read-only flag and without the warning.
\<close>

theorem C6_padded_device_counterexample:
  "(0x100000 :: 64 word) < boot_fs_size boot_sample \<and>
   ntfs_init_from_boot ntfs_h_sample (Some boot_sample) True sb_sample 4096 0x100000 =
     Inr (mk_sb_info ntfs_h_sample boot_sample sb_sample, sb_sample,
          [Warn_sector_size_differs]) \<and>
   \<not> sb_rdonly (s_flags sb_sample)"
  by (simp add: init_from_boot_Some sample_accepted padded_dev_size_def sample_sizes
      PAGE_SIZE_def sb_rdonly_def sb_sample_def Let_def)


section \<open>Properties of the load of the attribute definitions\<close>

lemma attr_pages_done: "\<not> dn < bytes \<Longrightarrow> attr_pages h map_page t0 bytes dn idx = Some (Inr ())"
  by (subst attr_pages.simps) simp

lemma attr_pages_bad_first:
  "0 < bytes \<Longrightarrow> map_page 0 = None \<Longrightarrow> ATTR_STD h \<noteq> t0 \<Longrightarrow>
   attr_pages h map_page t0 bytes 0 0 = Some (Inl (- EINVAL))"
  by (subst attr_pages.simps) simp

lemma attr_pages_ok:
  assumes fit: "unat bytes \<le> 2 ^ 32 - 4096" and pages: "\<forall>i. map_page i = None"
    and std: "ATTR_STD h = t0"
  shows "attr_pages h map_page t0 bytes dn idx = Some (Inr ())"
proof (induction "unat bytes - unat dn" arbitrary: dn idx rule: less_induct)
  case less
  show ?case
  proof (cases "dn < bytes")
    case False
    then show ?thesis by (rule attr_pages_done)
  next
    case True
    then have lt: "unat dn < unat bytes" by (simp add: word_less_nat_alt)
    with fit have "unat dn + unat PAGE_SIZE < 2 ^ 32" by (simp add: PAGE_SIZE_def)
    then have "unat (dn + PAGE_SIZE) = unat dn + unat PAGE_SIZE"
      by (simp add: unat_add_lem [THEN iffD1])
    then have "unat bytes - unat (dn + PAGE_SIZE) < unat bytes - unat dn"
      using lt by (simp add: PAGE_SIZE_def)
    then have "attr_pages h map_page t0 bytes (dn + PAGE_SIZE) (idx + 1) = Some (Inr ())"
      by (rule less)
    with True pages std show ?thesis
      by (subst attr_pages.simps) simp
  qed
qed

lemma def_scan_prefix:
  "\<exists>m. fst (def_scan h prev ts (n, mx)) = n + m \<and> m \<le> length ts \<and>
       ascending_aligned (prev # take m ts) \<and>
       (m < length ts \<longrightarrow> \<not> ascending_aligned (prev # take (Suc m) ts))"
proof (induction ts arbitrary: prev n mx)
  case Nil
  then show ?case by simp
next
  case (Cons t ts)
  show ?case
  proof (cases "type t AND 0xF \<noteq> 0 \<or> type prev \<ge> type t")
    case True
    then have "fst (def_scan h prev (t # ts) (n, mx)) = n + 0 \<and> 0 \<le> length (t # ts) \<and>
       ascending_aligned (prev # take 0 (t # ts)) \<and>
       (0 < length (t # ts) \<longrightarrow> \<not> ascending_aligned (prev # take (Suc 0) (t # ts)))"
      by (auto simp: not_less)
    then show ?thesis by blast
  next
    case False
    from Cons.IH [of t "n + 1" "if type t = ATTR_REPARSE h then max_sz t else mx"]
    obtain m where m: "fst (def_scan h t ts (n + 1, if type t = ATTR_REPARSE h then max_sz t else mx))
        = n + 1 + m" "m \<le> length ts" "ascending_aligned (t # take m ts)"
        "m < length ts \<longrightarrow> \<not> ascending_aligned (t # take (Suc m) ts)"
      by blast
    from False m have "fst (def_scan h prev (t # ts) (n, mx)) = n + Suc m \<and>
       Suc m \<le> length (t # ts) \<and>
       ascending_aligned (prev # take (Suc m) (t # ts)) \<and>
       (Suc m < length (t # ts) \<longrightarrow> \<not> ascending_aligned (prev # take (Suc (Suc m)) (t # ts)))"
      by (auto simp: not_le)
    then show ?thesis by blast
  qed
qed

lemma def_scan_second_low:
  "type t \<le> type prev \<Longrightarrow> def_scan h prev (t # ts) (n, mx) = (n, mx)"
  by simp


lemma aligned_prefix:
  assumes "Suc m \<le> N"
  shows "t 0 # take m (map t [1 ..< N]) = map t [0 ..< Suc m]"
proof -
  from assms have "take m [1 ..< N] = [1 ..< 1 + m]" by (intro take_upt) simp
  then have "take m (map t [1 ..< N]) = map t [Suc 0 ..< Suc m]" by (simp add: take_map)
  moreover have "[0 ..< Suc m] = 0 # [Suc 0 ..< Suc m]" by (rule upt_conv_Cons) simp
  ultimately show ?thesis by simp
qed

text \<open>
  The load of a file of at most \<open>0xFFFFF000\<close> bytes, when the allocation and the
  mapping of every page succeed. A first entry that is not of type \<open>ATTR_STD\<close> ends
  the mount with \<open>-EINVAL\<close>. Otherwise the load succeeds and \<open>def_entries\<close> is the
  length of the longest prefix of the entries within the file in which every entry after
  the first has a type above that of the entry before it and the low four bits zero; a
  second entry with a type not above the first leaves one entry.
\<close>

lemma attrdef_when_size_fits:
  assumes sz: "sizeof_ATTR_DEF_ENTRY h \<le> i_size" "0 < sizeof_ATTR_DEF_ENTRY h"
    and fit: "i_size \<le> 0xFFFFF000" and al: alloc_ok and pages: "\<forall>i. map_page i = None"
  shows "(type (t 0) \<noteq> ATTR_STD h \<longrightarrow>
            load_attrdef h alloc_ok map_page i_size t = Some (Inl (- EINVAL))) \<and>
         (type (t 0) = ATTR_STD h \<longrightarrow>
            (\<exists>n mx. load_attrdef h alloc_ok map_page i_size t = Some (Inr (n, mx)) \<and>
               1 \<le> n \<and> n \<le> unat i_size div unat (sizeof_ATTR_DEF_ENTRY h) \<and>
               ascending_aligned (map t [0 ..< n]) \<and>
               (n < unat i_size div unat (sizeof_ATTR_DEF_ENTRY h) \<longrightarrow>
                  \<not> ascending_aligned (map t [0 ..< Suc n])) \<and>
               (2 \<le> unat i_size div unat (sizeof_ATTR_DEF_ENTRY h) \<and>
                type (t 1) \<le> type (t 0) \<longrightarrow> n = 1)))"
proof -
  let ?s = "sizeof_ATTR_DEF_ENTRY h"
  let ?bytes = "ucast i_size :: 32 word"
  let ?N = "unat i_size div unat ?s"
  from fit have "unat i_size \<le> unat (0xFFFFF000 :: 64 word)" by (simp only: word_le_nat_alt)
  then have small: "unat i_size \<le> 2 ^ 32 - 4096" by simp
  then have "unat i_size < 2 ^ 32" by simp
  then have ub: "unat ?bytes = unat i_size"
    by (simp add: unsigned_ucast_eq take_bit_nat_eq_self)
  from sz have spos: "0 < unat ?s" and sle: "unat ?s \<le> unat i_size"
    by (simp_all add: word_less_nat_alt word_le_nat_alt)
  then have "0 < unat ?bytes" using ub by simp
  then have bpos: "0 < ?bytes" by (simp add: word_less_nat_alt)
  from spos sle have N1: "1 \<le> ?N" by (simp add: Suc_le_eq div_greater_zero_iff)
  from sz have nlt: "\<not> i_size < ?s" by (simp add: not_less)
  have bad: "load_attrdef h alloc_ok map_page i_size t = Some (Inl (- EINVAL))"
    if "type (t 0) \<noteq> ATTR_STD h"
  proof -
    from that have "ATTR_STD h \<noteq> type (t 0)" by simp
    with bpos pages have "attr_pages h map_page (type (t 0)) ?bytes 0 0 = Some (Inl (- EINVAL))"
      by (intro attr_pages_bad_first) simp_all
    with nlt al show ?thesis by (simp add: load_attrdef_def)
  qed
  have good: "\<exists>n mx. load_attrdef h alloc_ok map_page i_size t = Some (Inr (n, mx)) \<and>
               1 \<le> n \<and> n \<le> ?N \<and> ascending_aligned (map t [0 ..< n]) \<and>
               (n < ?N \<longrightarrow> \<not> ascending_aligned (map t [0 ..< Suc n])) \<and>
               (2 \<le> ?N \<and> type (t 1) \<le> type (t 0) \<longrightarrow> n = 1)"
    if std: "type (t 0) = ATTR_STD h"
  proof -
    let ?ts = "map t [1 ..< ?N]"
    let ?r = "def_scan h (t 0) ?ts (1, MAXIMUM_REPARSE_DATA_BUFFER_SIZE h)"
    from small ub have "unat ?bytes \<le> 2 ^ 32 - 4096" by simp
    from attr_pages_ok [OF this pages std [symmetric]]
    have "attr_pages h map_page (type (t 0)) ?bytes 0 0 = Some (Inr ())" .
    with nlt al ub have res: "load_attrdef h alloc_ok map_page i_size t = Some (Inr ?r)"
      by (simp add: load_attrdef_def)
    from def_scan_prefix [of h "t 0" ?ts 1 "MAXIMUM_REPARSE_DATA_BUFFER_SIZE h"]
    obtain m where m: "fst ?r = 1 + m" "m \<le> length ?ts"
      "ascending_aligned (t 0 # take m ?ts)"
      "m < length ?ts \<longrightarrow> \<not> ascending_aligned (t 0 # take (Suc m) ?ts)"
      by blast
    from m(2) N1 have mN: "Suc m \<le> ?N" by simp
    have a: "ascending_aligned (map t [0 ..< fst ?r])"
      using m(3) aligned_prefix [OF mN, of t] m(1) by simp
    have b: "\<not> ascending_aligned (map t [0 ..< Suc (fst ?r)])" if "fst ?r < ?N"
    proof -
      from that m(1) have lt: "m < length ?ts" and "Suc (Suc m) \<le> ?N" by simp_all
      from aligned_prefix [OF this(2), of t] m(4) lt m(1) show ?thesis by simp
    qed
    have c: "fst ?r = 1" if "2 \<le> ?N \<and> type (t 1) \<le> type (t 0)"
    proof -
      from that have "1 < ?N" by simp
      then have "[1 ..< ?N] = 1 # [Suc 1 ..< ?N]" by (rule upt_conv_Cons)
      then have "[1 ..< ?N] = 1 # [2 ..< ?N]" by (simp only: Suc_1)
      then have "?ts = t 1 # map t [2 ..< ?N]" by simp
      with that show ?thesis by (simp add: def_scan_second_low)
    qed
    have "load_attrdef h alloc_ok map_page i_size t = Some (Inr (fst ?r, snd ?r))"
      using res by simp
    moreover have "1 \<le> fst ?r" "fst ?r \<le> ?N" using m(1) mN by simp_all
    ultimately show ?thesis using a b c by blast
  qed
  from bad good show ?thesis by blast
qed


lemma attrdef_sample_run:
  "load_attrdef ntfs_h_sample True (\<lambda>i. None) 480 (table_sample 0x10) = Some (Inr (2, 0x4000))"
proof -
  have "attr_pages ntfs_h_sample (\<lambda>i. None) 0x10 480 0 0 = Some (Inr ())"
    by (intro attr_pages_ok) (simp_all add: ntfs_h_sample_def)
  moreover have "[1 ..< 3] = [1, 2 :: nat]" by (simp add: upt_conv_Cons)
  ultimately show ?thesis
    by (simp add: load_attrdef_def ntfs_h_sample_def table_sample_def)
qed

text \<open>
  Claim C7 holds for the files of \<open>attrdef_when_size_fits\<close>. It fails for a file of 4 GiB:
  \<open>bytes\<close>, a \<open>u32\<close>, is then 0, the loop that copies the pages and checks the type of the
  first entry is not entered, and the mount goes on with one entry although the first
  entry is not of type \<open>ATTR_STD\<close>.
\<close>

theorem C7_sentinel_check_skipped:
  "type (table_sample 0x30 0) \<noteq> ATTR_STD ntfs_h_sample \<and>
   load_attrdef ntfs_h_sample True (\<lambda>i. None) 0x100000000 (table_sample 0x30) =
     Some (Inr (1, 0x4000))"
proof -
  have z: "(ucast (0x100000000 :: 64 word) :: 32 word) = 0"
    by (simp add: word_eq_iff_unsigned [where ?'a = nat])
  have "attr_pages ntfs_h_sample (\<lambda>i. None) (type (table_sample 0x30 0)) 0 0 0 = Some (Inr ())"
    by (rule attr_pages_done) simp
  then have "load_attrdef ntfs_h_sample True (\<lambda>i. None) 0x100000000 (table_sample 0x30) =
     Some (Inr (1, 0x4000))"
    unfolding load_attrdef_def Let_def z by (simp add: ntfs_h_sample_def)
  then show ?thesis
    by (simp add: ntfs_h_sample_def table_sample_def)
qed


section \<open>Properties of the journal gate\<close>

lemma init_from_boot_rdonly:
  assumes "ntfs_init_from_boot h (Some boot) alloc_ok sb sector_size dev_size = Inr (sbi, sb', w)"
  shows "sb_rdonly (s_flags sb') =
           (sb_rdonly (s_flags sb) \<or>
            padded_dev_size boot sector_size dev_size < boot_fs_size boot)"
proof -
  let ?raw = "padded_dev_size boot sector_size dev_size < boot_fs_size boot"
  from assms have "s_flags sb' = (if ?raw then s_flags sb OR SB_RDONLY else s_flags sb)"
    unfolding init_from_boot_Some
    by (auto simp: Let_def sb_set_blocksize_flags split: if_splits)
  then show ?thesis
    using sb_rdonly_set [of "s_flags sb"] by auto
qed

text \<open>
  Claim C1, as the code has it. The gate reads the read-only flag of the superblock, not
  the request: \<open>ntfs_init_from_boot\<close> has set that flag, whatever was requested, when
  the padded size of the device is below the declared size of the filesystem. At the
  gate: with the dirty flag of the volume information set, no \<open>force\<close> option and a
  superblock that is not read-only, the mount fails, whatever the replay flag is; with
  the replay flag set and a superblock that is not read-only, the mount fails; a
  read-only superblock passes the gate in every state. Both refusals are the error
  \<open>-EINVAL\<close> with a warning that names the reason.
\<close>

theorem C1_journal_gate:
  "(volume_flags AND VOLUME_FLAG_DIRTY h \<noteq> 0 \<and> \<not> force \<and> \<not> sb_rdonly sflags \<longrightarrow>
      journal_gate h sflags flags volume_flags force \<in>
        {Inl (- EINVAL, Warn_replay_failed), Inl (- EINVAL, Warn_volume_dirty)}) \<and>
   (flags AND NTFS_FLAGS_NEED_REPLAY h = 0 \<and> volume_flags AND VOLUME_FLAG_DIRTY h \<noteq> 0 \<and>
    \<not> force \<and> \<not> sb_rdonly sflags \<longrightarrow>
      journal_gate h sflags flags volume_flags force = Inl (- EINVAL, Warn_volume_dirty)) \<and>
   (flags AND NTFS_FLAGS_NEED_REPLAY h \<noteq> 0 \<and> \<not> sb_rdonly sflags \<longrightarrow>
      journal_gate h sflags flags volume_flags force = Inl (- EINVAL, Warn_replay_failed)) \<and>
   (sb_rdonly sflags \<longrightarrow> journal_gate h sflags flags volume_flags force = Inr ()) \<and>
   (ntfs_init_from_boot h (Some boot) alloc_ok sb sector_size dev_size = Inr (sbi, sb', w) \<longrightarrow>
      sb_rdonly (s_flags sb') =
        (sb_rdonly (s_flags sb) \<or>
         padded_dev_size boot sector_size dev_size < boot_fs_size boot))"
proof -
  have gate: "(volume_flags AND VOLUME_FLAG_DIRTY h \<noteq> 0 \<and> \<not> force \<and> \<not> sb_rdonly sflags \<longrightarrow>
      journal_gate h sflags flags volume_flags force \<in>
        {Inl (- EINVAL, Warn_replay_failed), Inl (- EINVAL, Warn_volume_dirty)}) \<and>
   (flags AND NTFS_FLAGS_NEED_REPLAY h = 0 \<and> volume_flags AND VOLUME_FLAG_DIRTY h \<noteq> 0 \<and>
    \<not> force \<and> \<not> sb_rdonly sflags \<longrightarrow>
      journal_gate h sflags flags volume_flags force = Inl (- EINVAL, Warn_volume_dirty)) \<and>
   (flags AND NTFS_FLAGS_NEED_REPLAY h \<noteq> 0 \<and> \<not> sb_rdonly sflags \<longrightarrow>
      journal_gate h sflags flags volume_flags force = Inl (- EINVAL, Warn_replay_failed)) \<and>
   (sb_rdonly sflags \<longrightarrow> journal_gate h sflags flags volume_flags force = Inr ())"
    by (simp add: journal_gate_def)
  with init_from_boot_rdonly [of h boot alloc_ok sb sector_size dev_size sbi sb' w]
  show ?thesis by blast
qed

theorem C1_journal_gate_witness:
  "journal_gate ntfs_h_sample 0 0 1 False = Inl (- EINVAL, Warn_volume_dirty) \<and>
   journal_gate ntfs_h_sample 0 0x04000000 1 False = Inl (- EINVAL, Warn_replay_failed) \<and>
   journal_gate ntfs_h_sample 1 0x04000000 1 False = Inr () \<and>
   sb_rdonly (s_flags sb_sample) = False"
proof -
  have a: "(0 :: 32 word) AND NTFS_FLAGS_NEED_REPLAY ntfs_h_sample = 0 \<and>
           (1 :: 16 word) AND VOLUME_FLAG_DIRTY ntfs_h_sample \<noteq> 0 \<and> \<not> False \<and> \<not> sb_rdonly 0"
    by (simp add: ntfs_h_sample_def sb_rdonly_def)
  have b: "(0x04000000 :: 32 word) AND NTFS_FLAGS_NEED_REPLAY ntfs_h_sample \<noteq> 0 \<and> \<not> sb_rdonly 0"
    by (simp add: ntfs_h_sample_def sb_rdonly_def)
  have c: "sb_rdonly 1"
    by (simp add: sb_rdonly_def SB_RDONLY_def)
  have d: "\<not> (sb_rdonly (s_flags sb_sample) \<or>
       padded_dev_size boot_sample 512 0x100200 < boot_fs_size boot_sample)"
    by (simp add: sb_rdonly_def sb_sample_def padded_dev_size_def sample_sizes)
  from a C1_journal_gate [where volume_flags = 1 and h = ntfs_h_sample and force = False
      and sflags = 0 and flags = 0]
  have ra: "journal_gate ntfs_h_sample 0 0 1 False = Inl (- EINVAL, Warn_volume_dirty)"
    by blast
  from b C1_journal_gate [where volume_flags = 1 and h = ntfs_h_sample and force = False
      and sflags = 0 and flags = "0x04000000"]
  have rb: "journal_gate ntfs_h_sample 0 0x04000000 1 False = Inl (- EINVAL, Warn_replay_failed)"
    by blast
  from c C1_journal_gate [where volume_flags = 1 and h = ntfs_h_sample and force = False
      and sflags = 1 and flags = "0x04000000"]
  have rc: "journal_gate ntfs_h_sample 1 0x04000000 1 False = Inr ()"
    by blast
  from d sample_run C1_journal_gate [where h = ntfs_h_sample and boot = boot_sample
      and alloc_ok = True and sb = sb_sample and sector_size = 512 and dev_size = "0x100200"
      and sbi = "mk_sb_info ntfs_h_sample boot_sample sb_sample" and sb' = sb_sample
      and w = "[]"]
  have rd: "sb_rdonly (s_flags sb_sample) = False"
    by blast
  from ra rb rc rd show ?thesis by blast
qed

text \<open>
  Claim C1 as stated fails for a mount that is requested read-write on a device that is
  smaller than the filesystem declares. The superblock comes without the read-only flag,
  \<open>ntfs_init_from_boot\<close> sets it, and the gate lets the mount pass although the volume
  is dirty and \<open>force\<close> is not given.
\<close>

theorem C1_requested_read_write_counterexample:
  "\<not> sb_rdonly (s_flags sb_sample) \<and>
   (1 :: 16 word) AND VOLUME_FLAG_DIRTY ntfs_h_sample \<noteq> 0 \<and>
   ntfs_init_from_boot ntfs_h_sample (Some boot_sample) True sb_sample 512 0x100000 =
     Inr (mk_sb_info ntfs_h_sample boot_sample sb_sample,
          sb_sample\<lparr>s_flags := s_flags sb_sample OR SB_RDONLY\<rparr>, [Warn_raw_volume]) \<and>
   journal_gate ntfs_h_sample (s_flags (sb_sample\<lparr>s_flags := s_flags sb_sample OR SB_RDONLY\<rparr>))
     0 1 False = Inr ()"
proof -
  have rw: "\<not> sb_rdonly (s_flags sb_sample)"
    by (simp add: sb_rdonly_def sb_sample_def)
  have dirty: "(1 :: 16 word) AND VOLUME_FLAG_DIRTY ntfs_h_sample \<noteq> 0"
    by (simp add: ntfs_h_sample_def)
  have run: "ntfs_init_from_boot ntfs_h_sample (Some boot_sample) True sb_sample 512 0x100000 =
     Inr (mk_sb_info ntfs_h_sample boot_sample sb_sample,
          sb_sample\<lparr>s_flags := s_flags sb_sample OR SB_RDONLY\<rparr>, [Warn_raw_volume])"
    by (simp add: init_from_boot_Some sample_accepted padded_dev_size_def sample_sizes
        PAGE_SIZE_def Let_def mk_sb_info_flags)
  have ro: "sb_rdonly (s_flags (sb_sample\<lparr>s_flags := s_flags sb_sample OR SB_RDONLY\<rparr>))"
    using sb_rdonly_set [of "s_flags sb_sample"] by simp
  then have gate: "journal_gate ntfs_h_sample
      (s_flags (sb_sample\<lparr>s_flags := s_flags sb_sample OR SB_RDONLY\<rparr>)) 0 1 False = Inr ()"
    by (simp add: journal_gate_def)
  from rw dirty run gate show ?thesis by blast
qed

end
